theory Spec2Isabelle
  imports Complex_Main "HOL-Library.AList"
begin

section \<open>Data model\<close>

text \<open>
  The session core of pymap (\<^verbatim>\<open>pymap/backend/session.py\<close>, class \<^verbatim>\<open>KeyValSession\<close>).
  Python objects that are shared and mutated (selected views) live in a store indexed by
  object identity; mailboxes live in the mailbox store, found by name. Every operation
  returns its result (or the exception it raises) together with the state it leaves.
  An optional argument is an \<open>option\<close>; a view, a mailbox, a sequence set or an event
  that is present counts as true where the code tests it (\<^verbatim>\<open>if selected:\<close>,
  \<^verbatim>\<open>not dest_selected\<close>).
\<close>

datatype flag = Seen | Deleted | Recent | Answered | Flagged | Draft | Keyword string

datatype flag_op = REPLACE | ADD | DELETE

datatype error =
    MailboxNotFound string
  | MailboxReadOnly string
  | TimeoutError
  | StorageFailure

text \<open>
  An event (\<^verbatim>\<open>pymap.concurrent.Event\<close>) is described by when it becomes set, counted in
  time units from now: \<open>Some t\<close> with \<open>t \<le> 0\<close> is an event that is already set,
  \<open>None\<close> one that is never set.
\<close>

type_synonym event = "real option"

record message =
  uid :: nat
  permanent_flags :: "flag set"
  recent :: bool
  contents :: string

record append_message =
  am_message :: string
  am_flag_set :: "flag set"

record session_flags =
  sf_recent :: "nat set"
  sf_flags :: "nat \<Rightarrow> flag set"

record selected_mailbox =
  sel_name :: string
  sel_readonly :: bool
  sel_uid_validity :: "nat option"
  sel_deleted :: bool
  sel_messages :: "(nat \<times> flag set) list"
  sel_session_flags :: session_flags

record mailbox =
  mbx_name :: string
  mbx_readonly :: bool
  mbx_uid_validity :: nat
  mbx_next_uid :: nat
  mbx_messages :: "message list"
  mbx_permanent_flags :: "flag set"
  mbx_session_flags :: "flag set"
  selected_set :: "nat list"
  updated :: event

record mailbox_snapshot =
  snap_name :: string
  snap_readonly :: bool
  snap_uid_validity :: nat
  snap_exists :: nat
  snap_recent :: nat
  snap_next_uid :: nat

text \<open>
  The state: the mailbox store (its mailboxes, the UID validity it gives out next, and what
  its \<^verbatim>\<open>save_flags\<close> does with an argument that is a generator, see \<open>save_flags\<close>
  below) and the view objects.
\<close>

record state =
  boxes :: "mailbox list"
  next_validity :: nat
  save_generator :: "message list \<Rightarrow> mailbox \<Rightarrow> error + mailbox"
  views :: "nat \<Rightarrow> selected_mailbox"
  next_view :: nat

datatype seq_bound = Number nat | Maximum

record sequence_set =
  ss_uid :: bool
  ss_ranges :: "(seq_bound \<times> seq_bound) list"

text \<open>
  What a call hands to \<^verbatim>\<open>save_flags(*messages)\<close> in one argument position: a message,
  or a generator object that would yield messages.
\<close>

datatype save_arg = Message message | Generator "message list"

section \<open>The collaborators of the session core\<close>

subsection \<open>Selected views\<close>

definition upd_view :: "nat \<Rightarrow> (selected_mailbox \<Rightarrow> selected_mailbox) \<Rightarrow> state \<Rightarrow> state" where
  "upd_view v f st = st\<lparr>views := (views st)(v := f (views st v))\<rparr>"

text \<open>
  Modelled from the spec: class \<^verbatim>\<open>SelectedMailbox\<close> (\<^verbatim>\<open>pymap/selected.py\<close>) is not among
  the sources. \<open>set_deleted\<close> sets the deleted marker, \<open>set_uid_validity\<close> copies the
  mailbox's UID validity, \<open>add_messages\<close> merges one (uid, permanent flags) pair into
  the membership (a new UID is added, a known UID gets the flags given) and leaves the
  session flags alone. \<^verbatim>\<open>_load_updates\<close> makes no other call on the membership; how the
  class drops UIDs that are gone is not modelled, and no statement below depends on it.
\<close>

definition set_deleted :: "selected_mailbox \<Rightarrow> selected_mailbox" where
  "set_deleted s = s\<lparr>sel_deleted := True\<rparr>"

definition set_uid_validity :: "nat \<Rightarrow> selected_mailbox \<Rightarrow> selected_mailbox" where
  "set_uid_validity n s = s\<lparr>sel_uid_validity := Some n\<rparr>"

definition add_messages :: "nat \<times> flag set \<Rightarrow> selected_mailbox \<Rightarrow> selected_mailbox" where
  "add_messages e s = s\<lparr>sel_messages := AList.update (fst e) (snd e) (sel_messages s)\<rparr>"

definition sel_exists :: "selected_mailbox \<Rightarrow> nat" where
  "sel_exists s = length (sel_messages s)"

definition sel_max_uid :: "selected_mailbox \<Rightarrow> nat" where
  "sel_max_uid s = fold max (map fst (sel_messages s)) 0"

text \<open>
  Modelled from the spec: class \<^verbatim>\<open>SessionFlags\<close> is not among the sources. \<open>add_recent\<close>
  records a UID as recent in the session; \<open>sf_update\<close> applies a flag operation to the
  session flags of one UID.
\<close>

definition add_recent :: "nat \<Rightarrow> selected_mailbox \<Rightarrow> selected_mailbox" where
  "add_recent u s =
     s\<lparr>sel_session_flags := (sel_session_flags s)\<lparr>sf_recent := insert u (sf_recent (sel_session_flags s))\<rparr>\<rparr>"

definition apply_op :: "flag_op \<Rightarrow> flag set \<Rightarrow> flag set \<Rightarrow> flag set" where
  "apply_op mode old fs = (case mode of REPLACE \<Rightarrow> fs | ADD \<Rightarrow> old \<union> fs | DELETE \<Rightarrow> old - fs)"

definition sf_update :: "nat \<Rightarrow> flag set \<Rightarrow> flag_op \<Rightarrow> selected_mailbox \<Rightarrow> selected_mailbox" where
  "sf_update u fs mode s =
     s\<lparr>sel_session_flags := (sel_session_flags s)
        \<lparr>sf_flags := (sf_flags (sel_session_flags s))(u := apply_op mode (sf_flags (sel_session_flags s) u) fs)\<rparr>\<rparr>"

definition empty_session_flags :: session_flags where
  "empty_session_flags = \<lparr>sf_recent = {}, sf_flags = (\<lambda>_. {})\<rparr>"

text \<open>
  Modelled from the spec: the constructor \<^verbatim>\<open>SelectedMailbox(name, readonly, selected_set=...)\<close>
  makes a new view object, with no UID validity, no members and no session flags yet, and
  binds it to the mailbox's selection registry. The registry keeps the views in the order
  they were registered.
\<close>

definition selected_new :: "string \<Rightarrow> bool \<Rightarrow> selected_mailbox" where
  "selected_new name ro =
     \<lparr>sel_name = name, sel_readonly = ro, sel_uid_validity = None,
      sel_deleted = False, sel_messages = [], sel_session_flags = empty_session_flags\<rparr>"

definition new_selected :: "string \<Rightarrow> bool \<Rightarrow> mailbox \<Rightarrow> state \<Rightarrow> nat \<times> mailbox \<times> state" where
  "new_selected name ro mbx st =
     (let v = next_view st
      in (v, mbx\<lparr>selected_set := selected_set mbx @ [v]\<rparr>,
          st\<lparr>views := (views st)(v := selected_new name ro), next_view := Suc v\<rparr>))"

text \<open>
  Modelled from the spec: \<^verbatim>\<open>SelectedSet.any_selected\<close> is not among the sources; it gives
  "any currently selected view". The model takes the one registered first.
\<close>

definition any_selected :: "nat list \<Rightarrow> nat option" where
  "any_selected reg = (case reg of [] \<Rightarrow> None | v # _ \<Rightarrow> Some v)"

subsection \<open>The mailbox store and its mailboxes\<close>

definition lookup :: "mailbox list \<Rightarrow> string \<Rightarrow> mailbox option" where
  "lookup bs n = find (\<lambda>b. mbx_name b = n) bs"

text \<open>A mailbox handle is the live object of the store: what is done to it is written back under its name.\<close>

definition put_mailbox :: "mailbox \<Rightarrow> state \<Rightarrow> state" where
  "put_mailbox mbx st =
     st\<lparr>boxes := map (\<lambda>b. if mbx_name b = mbx_name mbx then mbx else b) (boxes st)\<rparr>"

definition new_mailbox :: "string \<Rightarrow> nat \<Rightarrow> mailbox" where
  "new_mailbox name validity =
     \<lparr>mbx_name = name, mbx_readonly = False, mbx_uid_validity = validity, mbx_next_uid = 1,
      mbx_messages = [], mbx_permanent_flags = {Seen, Deleted, Answered, Flagged, Draft},
      mbx_session_flags = {Recent}, selected_set = [], updated = None\<rparr>"

text \<open>
  Modelled from the spec: the store's \<^verbatim>\<open>get_mailbox(name, try_create=False)\<close> is not among
  the sources. It resolves a mailbox by name to its handle or raises not-found; with
  \<open>try_create\<close> it is the create-if-missing variant, and a mailbox made that way is
  empty, writable and has a UID validity not used before.
\<close>

definition get_mailbox :: "string \<Rightarrow> bool \<Rightarrow> state \<Rightarrow> (error + mailbox) \<times> state" where
  "get_mailbox name try_create st =
     (case lookup (boxes st) name of
        Some mbx \<Rightarrow> (Inr mbx, st)
      | None \<Rightarrow>
          if try_create
          then (let mbx = new_mailbox name (next_validity st)
                in (Inr mbx, st\<lparr>boxes := boxes st @ [mbx], next_validity := Suc (next_validity st)\<rparr>))
          else (Inl (MailboxNotFound name), st))"

text \<open>
  Modelled from the spec: the mailbox operations (\<^verbatim>\<open>KeyValMailbox\<close>, \<^verbatim>\<open>pymap/backend/mailbox.py\<close>)
  are not among the sources. \<open>items\<close> and \<open>messages\<close> enumerate all messages in UID
  order; \<open>parse_message\<close> turns an appended message into a message with no UID yet;
  \<open>add\<close> assigns the next UID (never reused) and attaches the message; \<open>delete\<close>
  removes the message of a UID; \<open>save_flags\<close> persists the flags (permanent flags and
  the recent marker) of the messages it is given; \<open>snapshot\<close> is the point-in-time
  summary; \<open>cleanup\<close> is storage housekeeping and touches nothing modelled here.
\<close>

definition items :: "mailbox \<Rightarrow> (nat \<times> message) list" where
  "items mbx = map (\<lambda>m. (uid m, m)) (mbx_messages mbx)"

definition messages :: "mailbox \<Rightarrow> message list" where
  "messages mbx = mbx_messages mbx"

definition parse_message :: "mailbox \<Rightarrow> append_message \<Rightarrow> message" where
  "parse_message mbx a =
     \<lparr>uid = 0, permanent_flags = am_flag_set a, recent = False, contents = am_message a\<rparr>"

definition add :: "mailbox \<Rightarrow> message \<Rightarrow> bool \<Rightarrow> message \<times> mailbox" where
  "add mbx msg rec =
     (let m = msg\<lparr>uid := mbx_next_uid mbx, recent := rec\<rparr>
      in (m, mbx\<lparr>mbx_messages := mbx_messages mbx @ [m], mbx_next_uid := Suc (mbx_next_uid mbx)\<rparr>))"

definition delete :: "nat \<Rightarrow> mailbox \<Rightarrow> mailbox" where
  "delete u mbx = mbx\<lparr>mbx_messages := filter (\<lambda>m. uid m \<noteq> u) (mbx_messages mbx)\<rparr>"

definition store_flags :: "message \<Rightarrow> message \<Rightarrow> message" where
  "store_flags m s =
     (if uid s = uid m then s\<lparr>permanent_flags := permanent_flags m, recent := recent m\<rparr> else s)"

text \<open>
  \<open>save_flags\<close> takes its messages as separate arguments (\<^verbatim>\<open>*messages\<close>) and persists
  the flags of each. What it does with an argument that is a generator is stated by neither
  the spec nor the sources, and differs from store to store: a store that hands out its
  live message objects already holds the flags changed on them, a store that reads each
  argument as a message persists nothing of it or fails. It is therefore a parameter,
  \<open>g\<close> (the state's \<open>save_generator\<close>): \<open>g ms mbx\<close> is the mailbox left by, or the
  error raised by, a call whose argument is a generator of the messages \<open>ms\<close>.
\<close>

fun save_flags ::
  "(message list \<Rightarrow> mailbox \<Rightarrow> error + mailbox) \<Rightarrow> save_arg list \<Rightarrow> mailbox \<Rightarrow> error + mailbox" where
  "save_flags g [] mbx = Inr mbx"
| "save_flags g (Message m # rest) mbx =
     save_flags g rest (mbx\<lparr>mbx_messages := map (store_flags m) (mbx_messages mbx)\<rparr>)"
| "save_flags g (Generator ms # rest) mbx =
     (case g ms mbx of Inl e \<Rightarrow> Inl e | Inr mbx1 \<Rightarrow> save_flags g rest mbx1)"

definition snapshot :: "mailbox \<Rightarrow> mailbox_snapshot" where
  "snapshot mbx =
     \<lparr>snap_name = mbx_name mbx, snap_readonly = mbx_readonly mbx,
      snap_uid_validity = mbx_uid_validity mbx, snap_exists = length (mbx_messages mbx),
      snap_recent = length (filter recent (mbx_messages mbx)), snap_next_uid = mbx_next_uid mbx\<rparr>"

definition cleanup :: "mailbox \<Rightarrow> mailbox" where
  "cleanup mbx = mbx"

definition set_event :: "event \<Rightarrow> event" where
  "set_event e = Some 0"

definition signal_updated :: "mailbox \<Rightarrow> mailbox" where
  "signal_updated mbx = mbx\<lparr>updated := set_event (updated mbx)\<rparr>"

text \<open>
  Modelled from the spec: \<^verbatim>\<open>find(sequence_set, selected)\<close> is not among the sources. It
  yields the messages matching a sequence or UID selector, numbered from 1 in UID order,
  with the selector's maximum taken from the view's bounds. It is read off the mailbox
  as it is when the enumeration starts.
\<close>

definition bound_val :: "nat \<Rightarrow> seq_bound \<Rightarrow> nat" where
  "bound_val mx b = (case b of Number n \<Rightarrow> n | Maximum \<Rightarrow> mx)"

definition in_range :: "nat \<Rightarrow> nat \<Rightarrow> seq_bound \<times> seq_bound \<Rightarrow> bool" where
  "in_range mx n r =
     (min (bound_val mx (fst r)) (bound_val mx (snd r)) \<le> n \<and>
      n \<le> max (bound_val mx (fst r)) (bound_val mx (snd r)))"

definition ss_contains :: "sequence_set \<Rightarrow> nat \<Rightarrow> nat \<Rightarrow> bool" where
  "ss_contains ss mx n = list_ex (in_range mx n) (ss_ranges ss)"

definition ss_all :: "bool \<Rightarrow> sequence_set" where
  "ss_all u = \<lparr>ss_uid = u, ss_ranges = [(Number 1, Maximum)]\<rparr>"

definition find_messages :: "mailbox \<Rightarrow> sequence_set \<Rightarrow> selected_mailbox \<Rightarrow> (nat \<times> message) list" where
  "find_messages mbx ss sel =
     filter (\<lambda>(seq, msg).
        if ss_uid ss then ss_contains ss (sel_max_uid sel) (uid msg)
        else ss_contains ss (sel_exists sel) seq)
       (zip [1 ..< Suc (length (mbx_messages mbx))] (mbx_messages mbx))"

text \<open>
  Modelled from the spec: \<^verbatim>\<open>KeyValMessage.update_flags(flag_set, mode)\<close> is not among the
  sources; it applies the flag operation (replace, add, remove) to the permanent flags.
\<close>

definition msg_update_flags :: "flag set \<Rightarrow> flag_op \<Rightarrow> message \<Rightarrow> message" where
  "msg_update_flags fs mode msg = msg\<lparr>permanent_flags := apply_op mode (permanent_flags msg) fs\<rparr>"

record fetch_attribute =
  attr_name :: string
  set_seen :: bool

text \<open>
  Modelled from the spec: \<^verbatim>\<open>Event.or_event\<close> and \<^verbatim>\<open>Event.wait(timeout)\<close> are not among
  the sources. The combined event is set as soon as either one is. \<open>wait\<close> blocks until
  the event is set and returns, or raises \<open>TimeoutError\<close> once the timeout has passed;
  either way it tells how long it took.
\<close>

definition or_event :: "event \<Rightarrow> event \<Rightarrow> event" where
  "or_event a b =
     (case a of None \<Rightarrow> b | Some s \<Rightarrow> (case b of None \<Rightarrow> Some s | Some t \<Rightarrow> Some (min s t)))"

definition wait :: "event \<Rightarrow> real \<Rightarrow> (error + unit) \<times> real" where
  "wait e timeout =
     (case e of
        None \<Rightarrow> (Inl TimeoutError, timeout)
      | Some t \<Rightarrow> if t \<le> timeout then (Inr (), max 0 t) else (Inl TimeoutError, timeout))"

section \<open>The session core\<close>

subsection \<open>View synchronization\<close>

text \<open>Lines 50 to 52 of \<^verbatim>\<open>_load_updates\<close>: the reconciliation against a resolved mailbox.\<close>

definition sync_view :: "mailbox \<Rightarrow> selected_mailbox \<Rightarrow> selected_mailbox" where
  "sync_view mbx s =
     fold (\<lambda>(u, msg). add_messages (u, permanent_flags msg)) (items mbx)
       (set_uid_validity (mbx_uid_validity mbx) s)"

text \<open>Lines 44 to 46: the handle is kept when it is present and bears the view's name.\<close>

definition resolve :: "selected_mailbox \<Rightarrow> mailbox option \<Rightarrow> state \<Rightarrow> (error + mailbox) \<times> state" where
  "resolve s mbx st =
     (case mbx of
        None \<Rightarrow> get_mailbox (sel_name s) False st
      | Some m \<Rightarrow> if sel_name s \<noteq> mbx_name m then get_mailbox (sel_name s) False st
                  else (Inr m, st))"

definition load_updates :: "nat option \<Rightarrow> mailbox option \<Rightarrow> state \<Rightarrow> (error + nat option) \<times> state" where
  "load_updates selected mbx st =
     (case selected of
        None \<Rightarrow> (Inr None, st)
      | Some v \<Rightarrow>
          (case resolve (views st v) mbx st of
             (Inl (MailboxNotFound n), st1) \<Rightarrow> (Inr (Some v), upd_view v set_deleted st1)
           | (Inl e, st1) \<Rightarrow> (Inl e, st1)
           | (Inr m, st1) \<Rightarrow> (Inr (Some v), upd_view v (sync_view m) st1)))"

text \<open>The shape \<^verbatim>\<open>return result, await self._load_updates(selected, mbx)\<close>.\<close>

definition return_with_updates ::
  "'a \<Rightarrow> nat option \<Rightarrow> mailbox option \<Rightarrow> state \<Rightarrow> (error + 'a \<times> nat option) \<times> state" where
  "return_with_updates r selected mbx st =
     (case load_updates selected mbx st of
        (Inl e, st1) \<Rightarrow> (Inl e, st1)
      | (Inr sel, st1) \<Rightarrow> (Inr (r, sel), st1))"

subsection \<open>Cross-mailbox view resolution\<close>

definition find_selected :: "nat option \<Rightarrow> mailbox \<Rightarrow> state \<Rightarrow> nat option" where
  "find_selected selected mbx st =
     (case selected of
        Some v \<Rightarrow> if sel_name (views st v) = mbx_name mbx then Some v
                  else any_selected (selected_set mbx)
      | None \<Rightarrow> any_selected (selected_set mbx))"

subsection \<open>Change wait\<close>

definition wait_for_updates :: "mailbox \<Rightarrow> event \<Rightarrow> (error + unit) \<times> real" where
  "wait_for_updates mbx wait_on =
     (case wait (or_event wait_on (updated mbx)) 10 of
        (Inl TimeoutError, t) \<Rightarrow> (Inr (), t)
      | (Inl e, t) \<Rightarrow> (Inl e, t)
      | (Inr u, t) \<Rightarrow> (Inr (), t))"

subsection \<open>Append\<close>

text \<open>
  Lines 136 to 137 and 225 to 226:
  \<^verbatim>\<open>if dest_selected: dest_selected.session_flags.add_recent(msg.uid)\<close>.
\<close>

definition note_recent :: "nat option \<Rightarrow> nat \<Rightarrow> state \<Rightarrow> state" where
  "note_recent dest_selected u st =
     (case dest_selected of
        Some d \<Rightarrow> upd_view d (add_recent u) st
      | None \<Rightarrow> st)"

fun append_loop ::
  "append_message list \<Rightarrow> nat option \<Rightarrow> mailbox \<Rightarrow> state \<Rightarrow> nat list \<Rightarrow> nat list \<times> mailbox \<times> state" where
  "append_loop [] dest_selected mbx st uids = (uids, mbx, st)"
| "append_loop (append_msg # rest) dest_selected mbx st uids =
     (let msg = parse_message mbx append_msg;
          (msg1, mbx1) = add mbx msg (dest_selected = None);
          st1 = note_recent dest_selected (uid msg1) st
      in append_loop rest dest_selected mbx1 st1 (uids @ [uid msg1]))"

definition append_messages ::
  "string \<Rightarrow> append_message list \<Rightarrow> nat option \<Rightarrow> state
     \<Rightarrow> (error + (nat \<times> nat list) \<times> nat option) \<times> state" where
  "append_messages name msgs selected st =
     (case get_mailbox name True st of
        (Inl e, st1) \<Rightarrow> (Inl e, st1)
      | (Inr mbx, st1) \<Rightarrow>
          if mbx_readonly mbx then (Inl (MailboxReadOnly name), st1)
          else (let dest_selected = find_selected selected mbx st1;
                    (uids, mbx1, st2) = append_loop msgs dest_selected mbx st1 [];
                    mbx2 = signal_updated mbx1;
                    st3 = put_mailbox mbx2 st2
                in return_with_updates (mbx_uid_validity mbx2, uids) selected (Some mbx2) st3))"

subsection \<open>Select\<close>

fun select_loop :: "message list \<Rightarrow> nat \<Rightarrow> state \<Rightarrow> message list \<Rightarrow> message list \<times> state" where
  "select_loop [] v st recent_msgs = (recent_msgs, st)"
| "select_loop (msg # rest) v st recent_msgs =
     (if recent msg
      then select_loop rest v (upd_view v (add_recent (uid msg)) st)
             (recent_msgs @ [msg\<lparr>recent := False\<rparr>])
      else select_loop rest v st recent_msgs)"

definition select_mailbox ::
  "string \<Rightarrow> bool \<Rightarrow> state \<Rightarrow> (error + mailbox_snapshot \<times> nat option) \<times> state" where
  "select_mailbox name readonly st =
     (case get_mailbox name False st of
        (Inl e, st1) \<Rightarrow> (Inl e, st1)
      | (Inr mbx, st1) \<Rightarrow>
          (let (v, mbx1, st2) = new_selected name (readonly \<or> mbx_readonly mbx) mbx st1;
               st3 = put_mailbox mbx1 st2
           in if \<not> sel_readonly (views st3 v)
              then (let (recent_msgs, st4) = select_loop (messages mbx1) v st3 []
                    in (case save_flags (save_generator st4) (map Message recent_msgs) mbx1 of
                          Inl e \<Rightarrow> (Inl e, st4)
                        | Inr mbx2 \<Rightarrow>
                            return_with_updates (snapshot mbx2) (Some v) (Some mbx2)
                              (put_mailbox mbx2 st4)))
              else return_with_updates (snapshot mbx1) (Some v) (Some mbx1) st3))"

subsection \<open>Check and fetch\<close>

definition check_mailbox ::
  "nat \<Rightarrow> event option \<Rightarrow> bool \<Rightarrow> state \<Rightarrow> (error + nat option) \<times> state" where
  "check_mailbox selected wait_on housekeeping st =
     (case get_mailbox (sel_name (views st selected)) False st of
        (Inl e, st1) \<Rightarrow> (Inl e, st1)
      | (Inr mbx, st1) \<Rightarrow>
          (let mbx1 = (if housekeeping then cleanup mbx else mbx);
               st2 = put_mailbox mbx1 st1;
               waited = (case wait_on of
                           Some w \<Rightarrow> fst (wait_for_updates mbx1 w)
                         | None \<Rightarrow> Inr ())
           in (case waited of
                 Inl e \<Rightarrow> (Inl e, st2)
               | Inr u \<Rightarrow> load_updates (Some selected) (Some mbx1) st2)))"

text \<open>
  Line 178 adds \<open>Seen\<close> to the message objects that \<^verbatim>\<open>find\<close> gave, and these are what
  the Fetch returns. Whether they are the objects the store holds is the store's matter:
  it is part of what \<open>save_generator\<close> stands for, which is given the changed messages
  and the mailbox and says what the mailbox holds after line 179.
\<close>

definition add_seen :: "nat \<times> message \<Rightarrow> nat \<times> message" where
  "add_seen p = (fst p, (snd p)\<lparr>permanent_flags := insert Seen (permanent_flags (snd p))\<rparr>)"

definition fetch_messages ::
  "nat \<Rightarrow> sequence_set \<Rightarrow> fetch_attribute list \<Rightarrow> state
     \<Rightarrow> (error + (nat \<times> message) list \<times> nat option) \<times> state" where
  "fetch_messages selected sequence_set attributes st =
     (case get_mailbox (sel_name (views st selected)) False st of
        (Inl e, st1) \<Rightarrow> (Inl e, st1)
      | (Inr mbx, st1) \<Rightarrow>
          (let ret = find_messages mbx sequence_set (views st1 selected)
           in if \<not> sel_readonly (views st1 selected) \<and> list_ex set_seen attributes
              then (let ret1 = map add_seen ret
                    in (case save_flags (save_generator st1) [Generator (map snd ret1)] mbx of
                          Inl e \<Rightarrow> (Inl e, st1)
                        | Inr mbx1 \<Rightarrow>
                            return_with_updates ret1 (Some selected) (Some mbx1)
                              (put_mailbox mbx1 st1)))
              else return_with_updates ret (Some selected) (Some mbx) st1))"

subsection \<open>Expunge, copy and flag update\<close>

definition expunge_mailbox ::
  "nat \<Rightarrow> sequence_set option \<Rightarrow> state \<Rightarrow> (error + nat option) \<times> state" where
  "expunge_mailbox selected uid_set st =
     (if sel_readonly (views st selected)
      then (Inl (MailboxReadOnly (sel_name (views st selected))), st)
      else (case get_mailbox (sel_name (views st selected)) False st of
              (Inl e, st1) \<Rightarrow> (Inl e, st1)
            | (Inr mbx, st1) \<Rightarrow>
                (let uid_set1 = (case uid_set of None \<Rightarrow> ss_all True | Some u \<Rightarrow> u);
                     expunge_uids =
                       map (\<lambda>p. uid (snd p))
                         (filter (\<lambda>p. Deleted \<in> permanent_flags (snd p))
                            (find_messages mbx uid_set1 (views st1 selected)));
                     mbx1 = fold delete expunge_uids mbx;
                     mbx2 = signal_updated mbx1
                 in load_updates (Some selected) (Some mbx2) (put_mailbox mbx2 st1))))"

text \<open>
  In \<^verbatim>\<open>copy_messages\<close> the source and the destination are one object when the names
  are the same; the handle given to the synchronization is then the mailbox as the copy
  left it.
\<close>

fun copy_loop ::
  "(nat \<times> message) list \<Rightarrow> nat option \<Rightarrow> mailbox \<Rightarrow> state \<Rightarrow> (nat \<times> nat) list
     \<Rightarrow> (nat \<times> nat) list \<times> mailbox \<times> state" where
  "copy_loop [] dest_selected dest st uids = (uids, dest, st)"
| "copy_loop (p # rest) dest_selected dest st uids =
     (let source_uid = uid (snd p);
          (msg1, dest1) = add dest (snd p) (dest_selected = None);
          st1 = note_recent dest_selected (uid msg1) st
      in copy_loop rest dest_selected dest1 st1 (uids @ [(source_uid, uid msg1)]))"

definition copy_messages ::
  "nat \<Rightarrow> sequence_set \<Rightarrow> string \<Rightarrow> state
     \<Rightarrow> (error + (nat \<times> (nat \<times> nat) list) \<times> nat option) \<times> state" where
  "copy_messages selected sequence_set mailbox st =
     (case get_mailbox (sel_name (views st selected)) False st of
        (Inl e, st1) \<Rightarrow> (Inl e, st1)
      | (Inr mbx, st1) \<Rightarrow>
          (case get_mailbox mailbox True st1 of
             (Inl e, st2) \<Rightarrow> (Inl e, st2)
           | (Inr dest, st2) \<Rightarrow>
               if mbx_readonly dest then (Inl (MailboxReadOnly mailbox), st2)
               else (let dest_selected = find_selected (Some selected) dest st2;
                         (uids, dest1, st3) =
                           copy_loop (find_messages mbx sequence_set (views st2 selected))
                             dest_selected dest st2 [];
                         dest2 = signal_updated dest1;
                         st4 = put_mailbox dest2 st3;
                         mbx1 = (if mbx_name mbx = mbx_name dest then dest2 else mbx)
                     in return_with_updates (mbx_uid_validity dest2, uids) (Some selected)
                          (Some mbx1) st4)))"

fun update_loop ::
  "(nat \<times> message) list \<Rightarrow> nat \<Rightarrow> flag set \<Rightarrow> flag set \<Rightarrow> flag_op \<Rightarrow> state \<Rightarrow> message list
     \<Rightarrow> message list \<times> state" where
  "update_loop [] v permanent session mode st msgs = (msgs, st)"
| "update_loop (p # rest) v permanent session mode st msgs =
     update_loop rest v permanent session mode
       (upd_view v (sf_update (uid (snd p)) session mode) st)
       (msgs @ [msg_update_flags permanent mode (snd p)])"

definition update_flags ::
  "nat \<Rightarrow> sequence_set \<Rightarrow> flag set \<Rightarrow> flag_op \<Rightarrow> state
     \<Rightarrow> (error + nat list \<times> nat option) \<times> state" where
  "update_flags selected sequence_set flag_set mode st =
     (if sel_readonly (views st selected)
      then (Inl (MailboxReadOnly (sel_name (views st selected))), st)
      else (case get_mailbox (sel_name (views st selected)) False st of
              (Inl e, st1) \<Rightarrow> (Inl e, st1)
            | (Inr mbx, st1) \<Rightarrow>
                (let permanent = flag_set \<inter> mbx_permanent_flags mbx;
                     session = flag_set \<inter> mbx_session_flags mbx;
                     (msgs, st2) =
                       update_loop (find_messages mbx sequence_set (views st1 selected))
                         selected permanent session mode st1 []
                 in (case save_flags (save_generator st2) (map Message msgs) mbx of
                       Inl e \<Rightarrow> (Inl e, st2)
                     | Inr mbx1 \<Rightarrow>
                         (let uids = map uid msgs;
                              mbx2 = signal_updated mbx1
                          in return_with_updates uids (Some selected) (Some mbx2)
                               (put_mailbox mbx2 st2))))))"

section \<open>Descriptions used in the auxiliary facts\<close>

text \<open>
  The messages as a mailbox holds them after they were added one after the other, the
  first with UID \<open>n\<close>, all with the recent marker \<open>r\<close>.
\<close>

fun stored_as :: "nat \<Rightarrow> bool \<Rightarrow> message list \<Rightarrow> message list" where
  "stored_as n r [] = []"
| "stored_as n r (m # ms) = m\<lparr>uid := n, recent := r\<rparr> # stored_as (Suc n) r ms"

section \<open>Example states\<close>

definition ex_msg1 :: message where
  "ex_msg1 = \<lparr>uid = 1, permanent_flags = {}, recent = True, contents = ''first''\<rparr>"

definition ex_msg2 :: message where
  "ex_msg2 = \<lparr>uid = 2, permanent_flags = {Deleted}, recent = False, contents = ''second''\<rparr>"

definition ex_inbox :: mailbox where
  "ex_inbox =
     \<lparr>mbx_name = ''INBOX'', mbx_readonly = False, mbx_uid_validity = 7, mbx_next_uid = 3,
      mbx_messages = [ex_msg1, ex_msg2],
      mbx_permanent_flags = {Seen, Deleted, Answered, Flagged, Draft},
      mbx_session_flags = {Recent}, selected_set = [0, 2], updated = None\<rparr>"

definition ex_archive :: mailbox where
  "ex_archive =
     \<lparr>mbx_name = ''Archive'', mbx_readonly = True, mbx_uid_validity = 4, mbx_next_uid = 1,
      mbx_messages = [],
      mbx_permanent_flags = {Seen, Deleted, Answered, Flagged, Draft},
      mbx_session_flags = {Recent}, selected_set = [], updated = None\<rparr>"

definition ex_view :: "string \<Rightarrow> bool \<Rightarrow> selected_mailbox" where
  "ex_view n ro =
     \<lparr>sel_name = n, sel_readonly = ro, sel_uid_validity = Some 3, sel_deleted = False,
      sel_messages = [], sel_session_flags = empty_session_flags\<rparr>"

definition ex_selected :: selected_mailbox where
  "ex_selected =
     \<lparr>sel_name = ''INBOX'', sel_readonly = False, sel_uid_validity = Some 7, sel_deleted = False,
      sel_messages = [(1, {}), (2, {Deleted})], sel_session_flags = empty_session_flags\<rparr>"

definition ex_append :: append_message where
  "ex_append = \<lparr>am_message = ''third'', am_flag_set = {Flagged}\<rparr>"

definition ex_body :: fetch_attribute where
  "ex_body = \<lparr>attr_name = ''BODY[]'', set_seen = True\<rparr>"

text \<open>
  Three stores, told apart by what \<^verbatim>\<open>save_flags\<close> does with a generator: one finds no
  message among its arguments and persists nothing, one fails, one holds live message
  objects, so that the flags of the generator's messages are stored.
\<close>

definition store_ignores :: "message list \<Rightarrow> mailbox \<Rightarrow> error + mailbox" where
  "store_ignores ms mbx = Inr mbx"

definition store_fails :: "message list \<Rightarrow> mailbox \<Rightarrow> error + mailbox" where
  "store_fails ms mbx = Inl StorageFailure"

definition store_live :: "message list \<Rightarrow> mailbox \<Rightarrow> error + mailbox" where
  "store_live ms mbx =
     Inr (mbx\<lparr>mbx_messages := fold (\<lambda>m. map (store_flags m)) ms (mbx_messages mbx)\<rparr>)"

definition ex_views :: "nat \<Rightarrow> selected_mailbox" where
  "ex_views =
     (\<lambda>_. ex_view ''INBOX'' False)
       (0 := ex_selected,
        2 := ex_view ''INBOX'' True,
        3 := (ex_view ''INBOX'' False)\<lparr>sel_deleted := True\<rparr>,
        4 := ex_view ''Gone'' False)"

definition ex_state :: state where
  "ex_state =
     \<lparr>boxes = [ex_inbox, ex_archive], next_validity = 8, save_generator = store_ignores,
      views = ex_views, next_view = 5\<rparr>"

section \<open>Auxiliary facts\<close>

subsection \<open>The mailbox store\<close>

lemma views_put_mailbox [simp]: "views (put_mailbox m st) = views st"
  by (simp add: put_mailbox_def)

lemma next_view_put_mailbox [simp]: "next_view (put_mailbox m st) = next_view st"
  by (simp add: put_mailbox_def)

lemma lookup_map_put:
  "lookup (map (\<lambda>b. if mbx_name b = mbx_name m then m else b) bs) n =
     (if n = mbx_name m then (case lookup bs n of None \<Rightarrow> None | Some b \<Rightarrow> Some m)
      else lookup bs n)"
  by (induction bs) (auto simp: lookup_def)

lemma lookup_put_mailbox:
  "lookup (boxes (put_mailbox m st)) n =
     (if n = mbx_name m then (case lookup (boxes st) n of None \<Rightarrow> None | Some b \<Rightarrow> Some m)
      else lookup (boxes st) n)"
  by (simp add: put_mailbox_def lookup_map_put)

lemma lookup_name: "lookup bs n = Some m \<Longrightarrow> mbx_name m = n"
  by (induction bs) (auto simp: lookup_def split: if_splits)

lemma get_mailbox_found:
  "lookup (boxes st) n = Some m \<Longrightarrow> get_mailbox n c st = (Inr m, st)"
  by (simp add: get_mailbox_def)

lemma get_mailbox_missing:
  "lookup (boxes st) n = None \<Longrightarrow> get_mailbox n False st = (Inl (MailboxNotFound n), st)"
  by (simp add: get_mailbox_def)

subsection \<open>View synchronization\<close>

lemma load_updates_None: "load_updates None mbx st = (Inr None, st)"
  by (simp add: load_updates_def)

lemma load_updates_same:
  "sel_name (views st v) = mbx_name m \<Longrightarrow>
   load_updates (Some v) (Some m) st = (Inr (Some v), upd_view v (sync_view m) st)"
  by (simp add: load_updates_def resolve_def)

lemma load_updates_resolve_found:
  "mbx = None \<or> (\<exists>m. mbx = Some m \<and> mbx_name m \<noteq> sel_name (views st v)) \<Longrightarrow>
   lookup (boxes st) (sel_name (views st v)) = Some m' \<Longrightarrow>
   load_updates (Some v) mbx st = (Inr (Some v), upd_view v (sync_view m') st)"
  by (auto simp: load_updates_def resolve_def get_mailbox_found)

lemma load_updates_resolve_missing:
  "mbx = None \<or> (\<exists>m. mbx = Some m \<and> mbx_name m \<noteq> sel_name (views st v)) \<Longrightarrow>
   lookup (boxes st) (sel_name (views st v)) = None \<Longrightarrow>
   load_updates (Some v) mbx st = (Inr (Some v), upd_view v set_deleted st)"
  by (auto simp: load_updates_def resolve_def get_mailbox_missing)

lemma fold_add_messages_fields:
  "sel_name (fold (\<lambda>p. add_messages (g p)) xs s) = sel_name s \<and>
   sel_readonly (fold (\<lambda>p. add_messages (g p)) xs s) = sel_readonly s \<and>
   sel_deleted (fold (\<lambda>p. add_messages (g p)) xs s) = sel_deleted s \<and>
   sel_uid_validity (fold (\<lambda>p. add_messages (g p)) xs s) = sel_uid_validity s \<and>
   sel_session_flags (fold (\<lambda>p. add_messages (g p)) xs s) = sel_session_flags s"
  by (induction xs arbitrary: s) (simp_all add: add_messages_def)

lemma sync_view_fields [simp]:
  "sel_name (sync_view m s) = sel_name s"
  "sel_readonly (sync_view m s) = sel_readonly s"
  "sel_deleted (sync_view m s) = sel_deleted s"
  "sel_uid_validity (sync_view m s) = Some (mbx_uid_validity m)"
  "sel_session_flags (sync_view m s) = sel_session_flags s"
  by (simp_all add: sync_view_def case_prod_unfold fold_add_messages_fields set_uid_validity_def)

lemma set_deleted_fields [simp]:
  "sel_name (set_deleted s) = sel_name s"
  "sel_readonly (set_deleted s) = sel_readonly s"
  "sel_deleted (set_deleted s) = True"
  "sel_uid_validity (set_deleted s) = sel_uid_validity s"
  "sel_messages (set_deleted s) = sel_messages s"
  "sel_session_flags (set_deleted s) = sel_session_flags s"
  by (simp_all add: set_deleted_def)

lemma upd_view_fields [simp]:
  "boxes (upd_view v f st) = boxes st"
  "next_view (upd_view v f st) = next_view st"
  "next_validity (upd_view v f st) = next_validity st"
  "views (upd_view v f st) w = (if w = v then f (views st v) else views st w)"
  by (simp_all add: upd_view_def)

lemma upd_view_twice: "upd_view v f (upd_view v g st) = upd_view v (\<lambda>s. f (g s)) st"
  by (simp add: upd_view_def)

lemma load_updates_shape:
  "load_updates (Some v) mbx st = (Inr (Some v), upd_view v set_deleted st) \<or>
   (\<exists>m. load_updates (Some v) mbx st = (Inr (Some v), upd_view v (sync_view m) st))"
  by (cases "lookup (boxes st) (sel_name (views st v))")
     (auto simp: load_updates_def resolve_def get_mailbox_found get_mailbox_missing
           split: option.splits)

lemma load_updates_fst [simp]: "fst (load_updates sel mbx st) = Inr sel"
proof (cases sel)
  case None
  then show ?thesis by (simp add: load_updates_None)
next
  case (Some v)
  then show ?thesis using load_updates_shape [of v mbx st] by auto
qed

lemma load_updates_frame [simp]:
  "boxes (snd (load_updates sel mbx st)) = boxes st"
  "next_view (snd (load_updates sel mbx st)) = next_view st"
  "sel_session_flags (views (snd (load_updates sel mbx st)) w) = sel_session_flags (views st w)"
  "sel_name (views (snd (load_updates sel mbx st)) w) = sel_name (views st w)"
  "sel_readonly (views (snd (load_updates sel mbx st)) w) = sel_readonly (views st w)"
proof -
  have "boxes (snd (load_updates sel mbx st)) = boxes st \<and>
    next_view (snd (load_updates sel mbx st)) = next_view st \<and>
    sel_session_flags (views (snd (load_updates sel mbx st)) w) = sel_session_flags (views st w) \<and>
    sel_name (views (snd (load_updates sel mbx st)) w) = sel_name (views st w) \<and>
    sel_readonly (views (snd (load_updates sel mbx st)) w) = sel_readonly (views st w)"
  proof (cases sel)
    case None
    then show ?thesis by (simp add: load_updates_None)
  next
    case (Some v)
    then show ?thesis using load_updates_shape [of v mbx st] by (cases "w = v") auto
  qed
  then show
    "boxes (snd (load_updates sel mbx st)) = boxes st"
    "next_view (snd (load_updates sel mbx st)) = next_view st"
    "sel_session_flags (views (snd (load_updates sel mbx st)) w) = sel_session_flags (views st w)"
    "sel_name (views (snd (load_updates sel mbx st)) w) = sel_name (views st w)"
    "sel_readonly (views (snd (load_updates sel mbx st)) w) = sel_readonly (views st w)"
    by simp_all
qed

lemma load_updates_keeps_deleted:
  "sel_deleted (views st w) \<Longrightarrow> sel_deleted (views (snd (load_updates sel mbx st)) w)"
proof (cases sel)
  case None
  assume "sel_deleted (views st w)"
  with None show ?thesis by (simp add: load_updates_None)
next
  case (Some v)
  assume "sel_deleted (views st w)"
  with Some show ?thesis using load_updates_shape [of v mbx st] by (cases "w = v") auto
qed

lemma load_updates_eq: "load_updates sel mbx st = (Inr sel, snd (load_updates sel mbx st))"
  using load_updates_fst [of sel mbx st] by (cases "load_updates sel mbx st") simp

lemma return_with_updates_eq:
  "return_with_updates r sel mbx st = (Inr (r, sel), snd (load_updates sel mbx st))"
  unfolding return_with_updates_def by (subst load_updates_eq) simp

lemma add_messages_lookup:
  "map_of (sel_messages (add_messages (k, f) s)) = (map_of (sel_messages s))(k \<mapsto> f)"
  by (simp add: add_messages_def update_conv')

lemma sync_membership_fold:
  "map_of (sel_messages (fold (\<lambda>p. add_messages (fst p, permanent_flags (snd p)))
             (map (\<lambda>m. (uid m, m)) ms) s)) u =
     (case filter (\<lambda>x. uid x = u) ms of
        [] \<Rightarrow> map_of (sel_messages s) u
      | x # xs \<Rightarrow> Some (permanent_flags (last (x # xs))))"
proof (induction ms arbitrary: s)
  case Nil
  then show ?case by simp
next
  case (Cons m ms)
  show ?case
    by (simp add: Cons.IH add_messages_lookup split: list.splits)
qed

lemma sync_view_membership:
  "map_of (sel_messages (sync_view m s)) u =
     (case filter (\<lambda>x. uid x = u) (mbx_messages m) of
        [] \<Rightarrow> map_of (sel_messages s) u
      | x # xs \<Rightarrow> Some (permanent_flags (last (x # xs))))"
  unfolding sync_view_def items_def case_prod_unfold
  by (simp add: sync_membership_fold set_uid_validity_def split: list.splits)

lemma sync_view_member:
  assumes "msg \<in> set (mbx_messages m)"
  shows "\<exists>msg'\<in>set (mbx_messages m). uid msg' = uid msg \<and>
           map_of (sel_messages (sync_view m s)) (uid msg) = Some (permanent_flags msg')"
proof -
  from assms have ne: "filter (\<lambda>x. uid x = uid msg) (mbx_messages m) \<noteq> []"
    by (auto simp: filter_empty_conv)
  then obtain x xs where f: "filter (\<lambda>x. uid x = uid msg) (mbx_messages m) = x # xs"
    by (cases "filter (\<lambda>x. uid x = uid msg) (mbx_messages m)") auto
  have "last (x # xs) \<in> set (filter (\<lambda>x. uid x = uid msg) (mbx_messages m))"
    unfolding f by (rule last_in_set) simp
  then have "last (x # xs) \<in> set (mbx_messages m)" "uid (last (x # xs)) = uid msg"
    by auto
  moreover have "map_of (sel_messages (sync_view m s)) (uid msg) = Some (permanent_flags (last (x # xs)))"
    by (simp only: sync_view_membership f list.case)
  ultimately show ?thesis by blast
qed

lemma filter_distinct_key:
  "distinct (map f xs) \<Longrightarrow> x \<in> set xs \<Longrightarrow> filter (\<lambda>y. f y = f x) xs = [x]"
proof (induction xs)
  case Nil
  then show ?case by simp
next
  case (Cons a xs)
  then show ?case by (auto simp: filter_empty_conv image_iff)
qed

lemma sync_view_member_distinct:
  assumes "distinct (map uid (mbx_messages m))" "msg \<in> set (mbx_messages m)"
  shows "map_of (sel_messages (sync_view m s)) (uid msg) = Some (permanent_flags msg)"
  by (simp add: sync_view_membership filter_distinct_key [OF assms])

lemma sync_view_absent:
  "u \<notin> uid ` set (mbx_messages m) \<Longrightarrow>
   map_of (sel_messages (sync_view m s)) u = map_of (sel_messages s) u"
proof -
  assume "u \<notin> uid ` set (mbx_messages m)"
  then have "filter (\<lambda>x. uid x = u) (mbx_messages m) = []"
    by (auto simp: filter_empty_conv)
  then show ?thesis by (simp add: sync_view_membership)
qed

lemma load_updates_reconciles:
  assumes "(mbx = Some m \<and> mbx_name m = sel_name (views st v)) \<or>
           ((mbx = None \<or> (\<exists>m'. mbx = Some m' \<and> mbx_name m' \<noteq> sel_name (views st v))) \<and>
            lookup (boxes st) (sel_name (views st v)) = Some m)"
  shows "load_updates (Some v) mbx st = (Inr (Some v), upd_view v (sync_view m) st)"
  using assms
proof
  assume "mbx = Some m \<and> mbx_name m = sel_name (views st v)"
  then show ?thesis by (simp add: load_updates_same)
next
  assume "(mbx = None \<or> (\<exists>m'. mbx = Some m' \<and> mbx_name m' \<noteq> sel_name (views st v))) \<and>
            lookup (boxes st) (sel_name (views st v)) = Some m"
  then show ?thesis by (simp add: load_updates_resolve_found)
qed

subsection \<open>Recent flags and persisted flags\<close>

lemma fold_add_recent_fields [simp]:
  "sel_name (fold add_recent us s) = sel_name s"
  "sel_readonly (fold add_recent us s) = sel_readonly s"
  "sel_deleted (fold add_recent us s) = sel_deleted s"
  "sel_uid_validity (fold add_recent us s) = sel_uid_validity s"
  "sel_messages (fold add_recent us s) = sel_messages s"
  "sf_flags (sel_session_flags (fold add_recent us s)) = sf_flags (sel_session_flags s)"
  "sf_recent (sel_session_flags (fold add_recent us s)) = sf_recent (sel_session_flags s) \<union> set us"
  by (induction us arbitrary: s) (auto simp: add_recent_def)

lemma save_flags_messages:
  "save_flags g (map Message rs) mbx =
     Inr (mbx\<lparr>mbx_messages := fold (\<lambda>r. map (store_flags r)) rs (mbx_messages mbx)\<rparr>)"
  by (induction rs arbitrary: mbx) simp_all

lemma stored_recent_origin:
  "\<forall>r\<in>set rs. \<not> recent r \<Longrightarrow> s' \<in> set (fold (\<lambda>r. map (store_flags r)) rs ms) \<Longrightarrow> recent s' \<Longrightarrow>
   \<exists>s\<in>set ms. recent s \<and> uid s \<notin> uid ` set rs"
proof (induction rs arbitrary: ms)
  case Nil
  then show ?case by auto
next
  case (Cons r rs)
  from Cons.prems have "s' \<in> set (fold (\<lambda>r. map (store_flags r)) rs (map (store_flags r) ms))"
    by simp
  with Cons.IH [of "map (store_flags r) ms"] Cons.prems
  obtain s1 where s1: "s1 \<in> set (map (store_flags r) ms)" "recent s1" "uid s1 \<notin> uid ` set rs"
    by auto
  then obtain s where s: "s \<in> set ms" "s1 = store_flags r s" by auto
  with s1 Cons.prems have "uid s \<noteq> uid r" by (auto simp: store_flags_def)
  with s s1 show ?case by (auto simp: store_flags_def)
qed

lemma stored_uids:
  "map uid (fold (\<lambda>r. map (store_flags r)) rs ms) = map uid ms \<and>
   map contents (fold (\<lambda>r. map (store_flags r)) rs ms) = map contents ms"
proof (induction rs arbitrary: ms)
  case Nil
  then show ?case by simp
next
  case (Cons r rs)
  have "map uid (map (store_flags r) ms) = map uid ms" "map contents (map (store_flags r) ms) = map contents ms"
    by (simp_all add: store_flags_def)
  with Cons.IH [of "map (store_flags r) ms"] show ?case by simp
qed

lemma select_loop_eq:
  "select_loop ms v st acc =
     (acc @ map (\<lambda>m. m\<lparr>recent := False\<rparr>) (filter recent ms),
      upd_view v (fold add_recent (map uid (filter recent ms))) st)"
proof (induction ms arbitrary: st acc)
  case Nil
  then show ?case by (simp add: upd_view_def)
next
  case (Cons m ms)
  then show ?case by (simp add: upd_view_twice)
qed

subsection \<open>The example state\<close>

lemma ex_lookup [simp]:
  "lookup (boxes ex_state) ''INBOX'' = Some ex_inbox"
  "lookup (boxes ex_state) ''Archive'' = Some ex_archive"
  "lookup (boxes ex_state) ''Gone'' = None"
  "lookup (boxes ex_state) ''Drafts'' = None"
  by (simp_all add: lookup_def ex_state_def ex_inbox_def ex_archive_def)

lemma lookup_Nil: "lookup [] n = None"
  by (simp add: lookup_def)

lemma ex_views_simps [simp]:
  "views ex_state = ex_views"
  "ex_views 0 = ex_selected"
  "ex_views 2 = ex_view ''INBOX'' True"
  "ex_views 3 = (ex_view ''INBOX'' False)\<lparr>sel_deleted := True\<rparr>"
  "ex_views 4 = ex_view ''Gone'' False"
  by (simp_all add: ex_state_def ex_views_def)

lemma ex_view_simps [simp]:
  "sel_name (ex_view n ro) = n"
  "sel_readonly (ex_view n ro) = ro"
  "sel_deleted (ex_view n ro) = False"
  "sel_uid_validity (ex_view n ro) = Some 3"
  by (simp_all add: ex_view_def)

subsection \<open>Select\<close>

lemma clear_not_recent: "\<not> recent s \<Longrightarrow> s\<lparr>recent := False\<rparr> = s"
  by (cases s) simp

lemma store_flags_cleared:
  assumes "inj_on uid (set ms)" "r \<in> set ms" "s \<in> set ms"
  shows "store_flags (r\<lparr>recent := False\<rparr>) (if uid s \<in> D then s\<lparr>recent := False\<rparr> else s) =
         (if uid s \<in> insert (uid r) D then s\<lparr>recent := False\<rparr> else s)"
proof (cases "uid s = uid r")
  case True
  with assms have "s = r" by (auto dest: inj_onD)
  then show ?thesis by (simp add: store_flags_def)
next
  case False
  then show ?thesis by (simp add: store_flags_def)
qed

lemma stored_cleared:
  "inj_on uid (set ms) \<Longrightarrow> set rs \<subseteq> set ms \<Longrightarrow>
   fold (\<lambda>r. map (store_flags r)) (map (\<lambda>m. m\<lparr>recent := False\<rparr>) rs)
     (map (\<lambda>s. if uid s \<in> D then s\<lparr>recent := False\<rparr> else s) ms) =
   map (\<lambda>s. if uid s \<in> D \<union> uid ` set rs then s\<lparr>recent := False\<rparr> else s) ms"
proof (induction rs arbitrary: D)
  case Nil
  then show ?case by simp
next
  case (Cons r rs)
  define h where "h = (\<lambda>(D::nat set) (s::message). if uid s \<in> D then s\<lparr>recent := False\<rparr> else s)"
  have r: "r \<in> set ms" and rs: "set rs \<subseteq> set ms" using Cons.prems by auto
  have step: "map (store_flags (r\<lparr>recent := False\<rparr>)) (map (h D) ms) = map (h (insert (uid r) D)) ms"
    unfolding map_map h_def
    by (rule map_cong [OF refl]) (simp add: store_flags_cleared [OF Cons.prems(1) r] del: insert_iff)
  have ih: "fold (\<lambda>r. map (store_flags r)) (map (\<lambda>m. m\<lparr>recent := False\<rparr>) rs) (map (h (insert (uid r) D)) ms) =
        map (h (insert (uid r) D \<union> uid ` set rs)) ms"
    unfolding h_def using Cons.prems(1) rs by (rule Cons.IH)
  have sets: "insert (uid r) D \<union> uid ` set rs = D \<union> uid ` set (r # rs)" by auto
  have "fold (\<lambda>r. map (store_flags r)) (map (\<lambda>m. m\<lparr>recent := False\<rparr>) (r # rs)) (map (h D) ms) =
        fold (\<lambda>r. map (store_flags r)) (map (\<lambda>m. m\<lparr>recent := False\<rparr>) rs)
          (map (store_flags (r\<lparr>recent := False\<rparr>)) (map (h D) ms))"
    by simp
  also have "\<dots> = map (h (D \<union> uid ` set (r # rs))) ms"
    by (simp only: step ih sets)
  finally show ?case unfolding h_def .
qed

lemma stored_cleared_all:
  assumes "distinct (map uid ms)"
  shows "fold (\<lambda>r. map (store_flags r)) (map (\<lambda>m. m\<lparr>recent := False\<rparr>) (filter recent ms)) ms =
         map (\<lambda>m. m\<lparr>recent := False\<rparr>) ms"
proof -
  have inj: "inj_on uid (set ms)" using assms by (simp add: distinct_map)
  have "fold (\<lambda>r. map (store_flags r)) (map (\<lambda>m. m\<lparr>recent := False\<rparr>) (filter recent ms))
          (map (\<lambda>s. if uid s \<in> {} then s\<lparr>recent := False\<rparr> else s) ms) =
        map (\<lambda>s. if uid s \<in> {} \<union> uid ` set (filter recent ms) then s\<lparr>recent := False\<rparr> else s) ms"
    using inj by (intro stored_cleared) auto
  moreover have "map (\<lambda>s. if uid s \<in> {} \<union> uid ` set (filter recent ms) then s\<lparr>recent := False\<rparr> else s) ms =
        map (\<lambda>m. m\<lparr>recent := False\<rparr>) ms"
  proof (rule map_cong [OF refl])
    fix s assume "s \<in> set ms"
    then show "(if uid s \<in> {} \<union> uid ` set (filter recent ms) then s\<lparr>recent := False\<rparr> else s) = s\<lparr>recent := False\<rparr>"
      by (cases "recent s") (auto simp: clear_not_recent)
  qed
  ultimately show ?thesis by simp
qed

lemma stored_all_cleared:
  assumes "s' \<in> set (fold (\<lambda>r. map (store_flags r)) (map (\<lambda>m. m\<lparr>recent := False\<rparr>) (filter recent ms)) ms)"
  shows "\<not> recent s'"
proof
  assume "recent s'"
  with assms stored_recent_origin [of "map (\<lambda>m. m\<lparr>recent := False\<rparr>) (filter recent ms)" s' ms]
  obtain s where "s \<in> set ms" "recent s" "uid s \<notin> uid ` set (map (\<lambda>m. m\<lparr>recent := False\<rparr>) (filter recent ms))"
    by auto
  then show False by (auto simp: image_iff)
qed

lemma select_mailbox_readonly_eq:
  assumes "lookup (boxes st) name = Some mbx" "ro \<or> mbx_readonly mbx"
  shows "select_mailbox name ro st =
     (let v = next_view st;
          mbx1 = mbx\<lparr>selected_set := selected_set mbx @ [v]\<rparr>;
          st2 = st\<lparr>views := (views st)(v := selected_new name True), next_view := Suc v\<rparr>
      in (Inr (snapshot mbx1, Some v),
          snd (load_updates (Some v) (Some mbx1) (put_mailbox mbx1 st2))))"
  using assms
  by (simp add: select_mailbox_def get_mailbox_found new_selected_def selected_new_def Let_def
        return_with_updates_eq)

lemma select_mailbox_writable_eq:
  assumes "lookup (boxes st) name = Some mbx" "\<not> ro" "\<not> mbx_readonly mbx"
  shows "select_mailbox name ro st =
     (let v = next_view st;
          rs = filter recent (mbx_messages mbx);
          mbx1 = mbx\<lparr>selected_set := selected_set mbx @ [v]\<rparr>;
          mbx2 = mbx1\<lparr>mbx_messages := fold (\<lambda>r. map (store_flags r))
                        (map (\<lambda>m. m\<lparr>recent := False\<rparr>) rs) (mbx_messages mbx)\<rparr>;
          st2 = st\<lparr>views := (views st)(v := selected_new name False), next_view := Suc v\<rparr>
      in (Inr (snapshot mbx2, Some v),
          snd (load_updates (Some v) (Some mbx2)
                 (put_mailbox mbx2 (upd_view v (fold add_recent (map uid rs)) (put_mailbox mbx1 st2))))))"
  using assms
  by (simp add: select_mailbox_def get_mailbox_found new_selected_def selected_new_def Let_def
        return_with_updates_eq select_loop_eq messages_def save_flags_messages)

lemma selected_new_fields [simp]:
  "sel_name (selected_new name ro) = name"
  "sel_readonly (selected_new name ro) = ro"
  "sel_deleted (selected_new name ro) = False"
  "sf_recent (sel_session_flags (selected_new name ro)) = {}"
  by (simp_all add: selected_new_def empty_session_flags_def)

lemma ex_fields:
  "next_view ex_state = 5"
  "mbx_readonly ex_archive"
  "\<not> mbx_readonly ex_inbox"
  "mbx_messages ex_inbox = [ex_msg1, ex_msg2]"
  "mbx_next_uid ex_inbox = 3"
  "mbx_uid_validity ex_inbox = 7"
  "selected_set ex_inbox = [0, 2]"
  "recent ex_msg1" "\<not> recent ex_msg2" "uid ex_msg1 = 1" "uid ex_msg2 = 2"
  by (simp_all add: ex_state_def ex_archive_def ex_inbox_def ex_msg1_def ex_msg2_def)

subsection \<open>Append and copy\<close>

lemma stored_as_facts [simp]:
  "length (stored_as n r ms) = length ms"
  "map contents (stored_as n r ms) = map contents ms"
  "map permanent_flags (stored_as n r ms) = map permanent_flags ms"
  by (induction ms arbitrary: n) simp_all

lemma stored_as_uids: "map uid (stored_as n r ms) = [n ..< n + length ms]"
proof (induction ms arbitrary: n)
  case Nil
  then show ?case by simp
next
  case (Cons m ms)
  have "[n ..< n + length (m # ms)] = n # [Suc n ..< Suc n + length ms]"
    by (simp add: upt_conv_Cons del: upt_Suc)
  with Cons show ?case by simp
qed

lemma stored_as_recent: "m \<in> set (stored_as n r ms) \<Longrightarrow> recent m = r"
  by (induction ms arbitrary: n) auto

lemma note_recent_fields [simp]:
  "boxes (note_recent d u st) = boxes st"
  "next_view (note_recent d u st) = next_view st"
  "next_validity (note_recent d u st) = next_validity st"
  by (simp_all add: note_recent_def split: option.splits)

lemma fold_note_recent_fields [simp]:
  "boxes (fold (note_recent d) us st) = boxes st"
  "next_view (fold (note_recent d) us st) = next_view st"
  by (induction us arbitrary: st) simp_all

lemma fold_note_recent_None [simp]: "fold (note_recent None) us st = st"
  by (induction us arbitrary: st) (simp_all add: note_recent_def)

lemma fold_note_recent_Some:
  "fold (note_recent (Some d)) us st = upd_view d (fold add_recent us) st"
proof (induction us arbitrary: st)
  case Nil
  then show ?case by (simp add: upd_view_def)
next
  case (Cons u us)
  then show ?case by (simp add: note_recent_def upd_view_twice)
qed

lemma fold_note_recent_views:
  "sf_recent (sel_session_flags (views (fold (note_recent d) us st) w)) =
     sf_recent (sel_session_flags (views st w)) \<union> (if d = Some w then set us else {})"
  by (cases d) (auto simp: fold_note_recent_Some)

lemma fold_note_recent_names [simp]:
  "sel_name (views (fold (note_recent d) us st) w) = sel_name (views st w)"
  by (cases d) (auto simp: fold_note_recent_Some)

lemma append_loop_eq:
  "append_loop msgs d mbx st uids =
     (let N = stored_as (mbx_next_uid mbx) (d = None) (map (parse_message mbx) msgs)
      in (uids @ map uid N,
          mbx\<lparr>mbx_messages := mbx_messages mbx @ N,
              mbx_next_uid := mbx_next_uid mbx + length msgs\<rparr>,
          fold (note_recent d) (map uid N) st))"
proof (induction msgs arbitrary: mbx st uids)
  case Nil
  then show ?case by simp
next
  case (Cons a msgs)
  show ?case
    by (simp add: Cons.IH add_def Let_def parse_message_def)
qed

lemma copy_loop_eq:
  "copy_loop found d dest st uids =
     (let N = stored_as (mbx_next_uid dest) (d = None) (map snd found)
      in (uids @ zip (map (\<lambda>p. uid (snd p)) found) (map uid N),
          dest\<lparr>mbx_messages := mbx_messages dest @ N,
               mbx_next_uid := mbx_next_uid dest + length found\<rparr>,
          fold (note_recent d) (map uid N) st))"
proof (induction found arbitrary: dest st uids)
  case Nil
  then show ?case by simp
next
  case (Cons p found)
  show ?case
    by (simp add: Cons.IH add_def Let_def)
qed

lemma lookup_append:
  "lookup (bs @ [m]) n =
     (case lookup bs n of Some b \<Rightarrow> Some b | None \<Rightarrow> if mbx_name m = n then Some m else None)"
  by (induction bs) (simp_all add: lookup_def)

lemma get_mailbox_try_create:
  assumes "get_mailbox n True st = (r, st1)"
  shows "\<exists>m. r = Inr m \<and> lookup (boxes st1) n = Some m \<and> mbx_name m = n \<and>
             views st1 = views st \<and> next_view st1 = next_view st \<and>
             (case lookup (boxes st) n of
                Some b \<Rightarrow> m = b \<and> st1 = st
              | None \<Rightarrow> m = new_mailbox n (next_validity st))"
proof (cases "lookup (boxes st) n")
  case None
  with assms show ?thesis
    by (auto simp: get_mailbox_def Let_def lookup_append new_mailbox_def)
next
  case (Some b)
  with assms show ?thesis
    by (auto simp: get_mailbox_def dest: lookup_name)
qed

lemma find_selected_views:
  "views st1 = views st \<Longrightarrow> find_selected sel mbx st1 = find_selected sel mbx st"
  by (simp add: find_selected_def split: option.splits)

lemma signal_updated_fields [simp]:
  "mbx_name (signal_updated m) = mbx_name m"
  "mbx_messages (signal_updated m) = mbx_messages m"
  "mbx_uid_validity (signal_updated m) = mbx_uid_validity m"
  "mbx_next_uid (signal_updated m) = mbx_next_uid m"
  "updated (signal_updated m) = Some 0"
  by (simp_all add: signal_updated_def set_event_def)

lemma append_messages_eq:
  assumes "get_mailbox name True st = (Inr mbx, st1)" "\<not> mbx_readonly mbx"
  shows "append_messages name msgs selected st =
     (let d = find_selected selected mbx st1;
          N = stored_as (mbx_next_uid mbx) (d = None) (map (parse_message mbx) msgs);
          mbx2 = signal_updated (mbx\<lparr>mbx_messages := mbx_messages mbx @ N,
                                     mbx_next_uid := mbx_next_uid mbx + length msgs\<rparr>)
      in (Inr ((mbx_uid_validity mbx2, map uid N), selected),
          snd (load_updates selected (Some mbx2)
                 (put_mailbox mbx2 (fold (note_recent d) (map uid N) st1)))))"
  using assms
  by (simp add: append_messages_def append_loop_eq Let_def return_with_updates_eq)

lemma copy_messages_eq:
  assumes "lookup (boxes st) (sel_name (views st v)) = Some src"
    "get_mailbox name True st = (Inr dest, st1)" "\<not> mbx_readonly dest"
  shows "copy_messages v ss name st =
     (let d = find_selected (Some v) dest st1;
          found = find_messages src ss (views st1 v);
          N = stored_as (mbx_next_uid dest) (d = None) (map snd found);
          dest2 = signal_updated (dest\<lparr>mbx_messages := mbx_messages dest @ N,
                                       mbx_next_uid := mbx_next_uid dest + length found\<rparr>);
          src1 = (if mbx_name src = mbx_name dest then dest2 else src)
      in (Inr ((mbx_uid_validity dest2, zip (map (\<lambda>p. uid (snd p)) found) (map uid N)), Some v),
          snd (load_updates (Some v) (Some src1)
                 (put_mailbox dest2 (fold (note_recent d) (map uid N) st1)))))"
  using assms
  by (simp add: copy_messages_def get_mailbox_found copy_loop_eq Let_def return_with_updates_eq)

lemma added_result:
  assumes get: "get_mailbox name True st = (Inr mbx, st1)"
    and S: "S = snd (load_updates sel (Some src)
                 (put_mailbox (signal_updated (mbx\<lparr>mbx_messages := mbx_messages mbx @ N,
                                     mbx_next_uid := k\<rparr>))
                    (fold (note_recent d) us st1)))"
  shows "lookup (boxes S) name =
           Some (signal_updated (mbx\<lparr>mbx_messages := mbx_messages mbx @ N, mbx_next_uid := k\<rparr>))"
    and "sf_recent (sel_session_flags (views S w)) =
           sf_recent (sel_session_flags (views st w)) \<union> (if d = Some w then set us else {})"
proof -
  from get_mailbox_try_create [OF get]
  have m: "lookup (boxes st1) name = Some mbx" "mbx_name mbx = name" "views st1 = views st"
    by auto
  show "lookup (boxes S) name =
           Some (signal_updated (mbx\<lparr>mbx_messages := mbx_messages mbx @ N, mbx_next_uid := k\<rparr>))"
    using m by (simp add: S lookup_put_mailbox)
  show "sf_recent (sel_session_flags (views S w)) =
           sf_recent (sel_session_flags (views st w)) \<union> (if d = Some w then set us else {})"
    using m by (simp add: S fold_note_recent_views)
qed

lemma append_messages_result:
  assumes get: "get_mailbox name True st = (Inr mbx, st1)" and rw: "\<not> mbx_readonly mbx"
    and N: "N = stored_as (mbx_next_uid mbx) (find_selected selected mbx st = None)
                  (map (parse_message mbx) msgs)"
  shows "fst (append_messages name msgs selected st) =
           Inr ((mbx_uid_validity mbx, map uid N), selected) \<and>
         lookup (boxes (snd (append_messages name msgs selected st))) name =
           Some (signal_updated (mbx\<lparr>mbx_messages := mbx_messages mbx @ N,
                                      mbx_next_uid := mbx_next_uid mbx + length msgs\<rparr>)) \<and>
         (\<forall>w. sf_recent (sel_session_flags (views (snd (append_messages name msgs selected st)) w)) =
           sf_recent (sel_session_flags (views st w)) \<union>
             (if find_selected selected mbx st = Some w then set (map uid N) else {}))"
proof -
  from get_mailbox_try_create [OF get] have v: "views st1 = views st" by auto
  have d: "find_selected selected mbx st1 = find_selected selected mbx st"
    using v by (rule find_selected_views)
  show ?thesis
    unfolding append_messages_eq [OF get rw] Let_def d N [symmetric] fst_conv snd_conv
    using added_result [OF get refl] by simp
qed

lemma copy_messages_result:
  assumes src: "lookup (boxes st) (sel_name (views st v)) = Some src"
    and get: "get_mailbox name True st = (Inr dest, st1)" and rw: "\<not> mbx_readonly dest"
    and found: "found = find_messages src ss (views st v)"
    and N: "N = stored_as (mbx_next_uid dest) (find_selected (Some v) dest st = None) (map snd found)"
  shows "fst (copy_messages v ss name st) =
           Inr ((mbx_uid_validity dest, zip (map (\<lambda>p. uid (snd p)) found) (map uid N)), Some v) \<and>
         lookup (boxes (snd (copy_messages v ss name st))) name =
           Some (signal_updated (dest\<lparr>mbx_messages := mbx_messages dest @ N,
                                       mbx_next_uid := mbx_next_uid dest + length found\<rparr>)) \<and>
         (\<forall>w. sf_recent (sel_session_flags (views (snd (copy_messages v ss name st)) w)) =
           sf_recent (sel_session_flags (views st w)) \<union>
             (if find_selected (Some v) dest st = Some w then set (map uid N) else {}))"
proof -
  from get_mailbox_try_create [OF get] have v: "views st1 = views st" by auto
  have d: "find_selected (Some v) dest st1 = find_selected (Some v) dest st"
    using v by (rule find_selected_views)
  show ?thesis
    unfolding copy_messages_eq [OF src get rw] Let_def d v found [symmetric] N [symmetric]
      fst_conv snd_conv
    using added_result [OF get refl] by simp
qed

lemma any_selected_facts:
  "(any_selected reg = None) = (reg = [])"
  "any_selected reg = Some w \<Longrightarrow> w \<in> set reg"
  by (auto simp: any_selected_def split: list.splits)

lemma find_selected_rule:
  "(\<forall>u. selected = Some u \<and> sel_name (views st u) = mbx_name mbx \<longrightarrow>
        find_selected selected mbx st = Some u) \<and>
   ((\<forall>u. selected = Some u \<longrightarrow> sel_name (views st u) \<noteq> mbx_name mbx) \<longrightarrow>
        find_selected selected mbx st = any_selected (selected_set mbx)) \<and>
   (any_selected (selected_set mbx) = None \<longleftrightarrow> selected_set mbx = []) \<and>
   (\<forall>w. any_selected (selected_set mbx) = Some w \<longrightarrow> w \<in> set (selected_set mbx))"
  by (auto simp: find_selected_def any_selected_facts split: option.splits)

subsection \<open>Append, copy and fetch on the example state\<close>

lemma ex_get_inbox: "get_mailbox ''INBOX'' True ex_state = (Inr ex_inbox, ex_state)"
  by (simp add: get_mailbox_found)

lemma ex_find_selected: "find_selected None ex_inbox ex_state = Some 0"
  by (simp add: find_selected_def any_selected_def ex_fields)

lemma ex_selected_fields:
  "sel_name ex_selected = ''INBOX''"
  "\<not> sel_readonly ex_selected"
  "sf_recent (sel_session_flags ex_selected) = {}"
  "sel_exists ex_selected = 2"
  by (simp_all add: ex_selected_def empty_session_flags_def sel_exists_def)

lemma ex_found:
  "find_messages ex_inbox (ss_all False) ex_selected = [(1, ex_msg1), (2, ex_msg2)]"
  by (simp add: find_messages_def ss_all_def ss_contains_def in_range_def bound_val_def
        ex_selected_fields ex_fields upt_rec)

lemma ex_find_selected_own: "find_selected (Some 0) ex_inbox ex_state = Some 0"
  by (simp add: find_selected_def ex_selected_fields ex_inbox_def)

lemma get_mailbox_creates:
  "lookup (boxes st) name = None \<Longrightarrow>
   get_mailbox name True st =
     (Inr (new_mailbox name (next_validity st)),
      st\<lparr>boxes := boxes st @ [new_mailbox name (next_validity st)],
         next_validity := Suc (next_validity st)\<rparr>)"
  by (simp add: get_mailbox_def Let_def)

lemma new_mailbox_fields [simp]:
  "mbx_name (new_mailbox name k) = name"
  "\<not> mbx_readonly (new_mailbox name k)"
  "mbx_uid_validity (new_mailbox name k) = k"
  "mbx_messages (new_mailbox name k) = []"
  "mbx_next_uid (new_mailbox name k) = 1"
  "selected_set (new_mailbox name k) = []"
  by (simp_all add: new_mailbox_def)

subsection \<open>Fetch\<close>

lemma fetch_messages_mark_seen:
  assumes "lookup (boxes st) (sel_name (views st v)) = Some mbx"
    "\<not> sel_readonly (views st v)" "list_ex set_seen attributes"
  shows "fetch_messages v ss attributes st =
     (case save_generator st (map snd (map add_seen (find_messages mbx ss (views st v)))) mbx of
        Inl e \<Rightarrow> (Inl e, st)
      | Inr mbx1 \<Rightarrow>
          (Inr (map add_seen (find_messages mbx ss (views st v)), Some v),
           snd (load_updates (Some v) (Some mbx1) (put_mailbox mbx1 st))))"
  using assms
  by (simp add: fetch_messages_def get_mailbox_found Let_def return_with_updates_eq
        split: sum.splits)

lemma fetch_messages_no_mark:
  assumes "lookup (boxes st) (sel_name (views st v)) = Some mbx"
    "sel_readonly (views st v) \<or> \<not> list_ex set_seen attributes"
  shows "fst (fetch_messages v ss attributes st) = Inr (find_messages mbx ss (views st v), Some v) \<and>
         boxes (snd (fetch_messages v ss attributes st)) = boxes st"
  using assms by (auto simp: fetch_messages_def get_mailbox_found Let_def return_with_updates_eq)

lemma save_flags_unpacked_example:
  "save_flags g (map Message (map snd (map add_seen (find_messages ex_inbox (ss_all False) ex_selected))))
     ex_inbox =
   Inr (ex_inbox\<lparr>mbx_messages :=
          [ex_msg1\<lparr>permanent_flags := {Seen}\<rparr>, ex_msg2\<lparr>permanent_flags := {Seen, Deleted}\<rparr>]\<rparr>)"
  by (simp add: ex_found add_seen_def store_flags_def ex_fields)
     (simp add: ex_msg1_def ex_msg2_def)

lemma ex_store_fields [simp]:
  "boxes (ex_state\<lparr>save_generator := g\<rparr>) = boxes ex_state"
  "views (ex_state\<lparr>save_generator := g\<rparr>) = views ex_state"
  "save_generator (ex_state\<lparr>save_generator := g\<rparr>) = g"
  by simp_all

lemma ex_seen:
  "map add_seen (find_messages ex_inbox (ss_all False) ex_selected) =
     [(1, ex_msg1\<lparr>permanent_flags := {Seen}\<rparr>), (2, ex_msg2\<lparr>permanent_flags := {Seen, Deleted}\<rparr>)]"
  by (simp add: ex_found add_seen_def) (simp add: ex_msg1_def ex_msg2_def)

lemma ex_fetch:
  "fetch_messages 0 (ss_all False) [ex_body] (ex_state\<lparr>save_generator := g\<rparr>) =
     (case g [ex_msg1\<lparr>permanent_flags := {Seen}\<rparr>, ex_msg2\<lparr>permanent_flags := {Seen, Deleted}\<rparr>] ex_inbox of
        Inl e \<Rightarrow> (Inl e, ex_state\<lparr>save_generator := g\<rparr>)
      | Inr mbx1 \<Rightarrow>
          (Inr ([(1, ex_msg1\<lparr>permanent_flags := {Seen}\<rparr>), (2, ex_msg2\<lparr>permanent_flags := {Seen, Deleted}\<rparr>)], Some 0),
           snd (load_updates (Some 0) (Some mbx1) (put_mailbox mbx1 (ex_state\<lparr>save_generator := g\<rparr>)))))"
proof -
  have "fetch_messages 0 (ss_all False) [ex_body] (ex_state\<lparr>save_generator := g\<rparr>) =
     (case save_generator (ex_state\<lparr>save_generator := g\<rparr>)
             (map snd (map add_seen (find_messages ex_inbox (ss_all False)
                 (views (ex_state\<lparr>save_generator := g\<rparr>) 0)))) ex_inbox of
        Inl e \<Rightarrow> (Inl e, ex_state\<lparr>save_generator := g\<rparr>)
      | Inr mbx1 \<Rightarrow>
          (Inr (map add_seen (find_messages ex_inbox (ss_all False)
                  (views (ex_state\<lparr>save_generator := g\<rparr>) 0)), Some 0),
           snd (load_updates (Some 0) (Some mbx1) (put_mailbox mbx1 (ex_state\<lparr>save_generator := g\<rparr>)))))"
    by (rule fetch_messages_mark_seen) (simp_all add: ex_selected_fields ex_body_def)
  then show ?thesis by (simp add: ex_seen split: sum.splits)
qed

section \<open>The claims\<close>

subsection \<open>C1\<close>

text \<open>
  Claim C1. \<^verbatim>\<open>_load_updates\<close>: with no view the result is absent and the state is as
  before. With a view, when the handle is absent or bears another name than the view, the
  mailbox is resolved again by the view's name: if there is none, the view is returned
  with only its deleted marker set (UID validity, membership and everything else in the
  state are as before); if there is one, the view is reconciled against that mailbox.
\<close>

theorem load_updates_absent_or_not_found:
  "load_updates None mbx st = (Inr None, st) \<and>
   (mbx = None \<or> (\<exists>m. mbx = Some m \<and> mbx_name m \<noteq> sel_name (views st v)) \<longrightarrow>
      (case lookup (boxes st) (sel_name (views st v)) of
         None \<Rightarrow>
           load_updates (Some v) mbx st =
             (Inr (Some v), st\<lparr>views := (views st)(v := (views st v)\<lparr>sel_deleted := True\<rparr>)\<rparr>)
       | Some m' \<Rightarrow>
           load_updates (Some v) mbx st =
             (Inr (Some v), st\<lparr>views := (views st)(v := sync_view m' (views st v))\<rparr>)))"
proof -
  have absent: "load_updates None mbx st = (Inr None, st)"
    by (rule load_updates_None)
  moreover have "mbx = None \<or> (\<exists>m. mbx = Some m \<and> mbx_name m \<noteq> sel_name (views st v)) \<Longrightarrow> ?thesis"
    using absent
    by (cases "lookup (boxes st) (sel_name (views st v))")
       (simp_all add: load_updates_resolve_missing load_updates_resolve_found upd_view_def set_deleted_def)
  ultimately show ?thesis by blast
qed

theorem load_updates_absent_or_not_found_witness:
  "load_updates None None ex_state = (Inr None, ex_state) \<and>
   lookup (boxes ex_state) (sel_name (views ex_state 4)) = None \<and>
   load_updates (Some 4) None ex_state =
     (Inr (Some 4), ex_state\<lparr>views := (views ex_state)(4 := (views ex_state 4)\<lparr>sel_deleted := True\<rparr>)\<rparr>)"
  using load_updates_absent_or_not_found [of None ex_state 4] by simp

subsection \<open>C2\<close>

text \<open>
  Claim C2. Selecting an existing, writable mailbox read-write succeeds with a new view.
  Afterwards no message stored in the mailbox is marked recent (the cleared markers are
  what \<open>save_flags\<close> persisted), no message was added or lost, the new view's session
  flags hold as recent exactly the UIDs of the messages that were marked recent, and no
  message of the mailbox is recent both on the message and in a view. Where the UIDs of
  the mailbox are distinct, the stored messages are the old ones with only the recent
  marker cleared.
\<close>

theorem select_claims_recency:
  assumes "lookup (boxes st) name = Some mbx" and "\<not> mbx_readonly mbx"
  shows "\<exists>snap mbx'.
           fst (select_mailbox name False st) = Inr (snap, Some (next_view st)) \<and>
           lookup (boxes (snd (select_mailbox name False st))) name = Some mbx' \<and>
           (\<forall>m\<in>set (mbx_messages mbx'). \<not> recent m) \<and>
           map uid (mbx_messages mbx') = map uid (mbx_messages mbx) \<and>
           map contents (mbx_messages mbx') = map contents (mbx_messages mbx) \<and>
           (distinct (map uid (mbx_messages mbx)) \<longrightarrow>
              mbx_messages mbx' = map (\<lambda>m. m\<lparr>recent := False\<rparr>) (mbx_messages mbx)) \<and>
           sf_recent (sel_session_flags (views (snd (select_mailbox name False st)) (next_view st))) =
             uid ` {m \<in> set (mbx_messages mbx). recent m} \<and>
           \<not> (\<exists>m\<in>set (mbx_messages mbx'). \<exists>w.
                 recent m \<and> uid m \<in> sf_recent (sel_session_flags (views (snd (select_mailbox name False st)) w)))"
proof -
  define v where "v = next_view st"
  define rs where "rs = filter recent (mbx_messages mbx)"
  define mbx1 where "mbx1 = mbx\<lparr>selected_set := selected_set mbx @ [v]\<rparr>"
  define mbx2 where "mbx2 = mbx1\<lparr>mbx_messages := fold (\<lambda>r. map (store_flags r))
                        (map (\<lambda>m. m\<lparr>recent := False\<rparr>) rs) (mbx_messages mbx)\<rparr>"
  define st2 where "st2 = st\<lparr>views := (views st)(v := selected_new name False), next_view := Suc v\<rparr>"
  define st5 where "st5 = put_mailbox mbx2 (upd_view v (fold add_recent (map uid rs)) (put_mailbox mbx1 st2))"
  have eq: "select_mailbox name False st =
      (Inr (snapshot mbx2, Some v), snd (load_updates (Some v) (Some mbx2) st5))"
    using select_mailbox_writable_eq [OF assms(1) _ assms(2), of False]
    by (simp add: Let_def v_def rs_def mbx1_def mbx2_def st2_def st5_def)
  have name: "mbx_name mbx = name" using assms(1) by (rule lookup_name)
  have names: "mbx_name mbx1 = name" "mbx_name mbx2 = name"
    by (simp_all add: mbx1_def mbx2_def name)
  have "lookup (boxes st2) name = Some mbx" using assms(1) by (simp add: st2_def)
  then have "lookup (boxes (put_mailbox mbx1 st2)) name = Some mbx1"
    using names by (simp add: lookup_put_mailbox)
  then have box: "lookup (boxes st5) name = Some mbx2"
    using names by (simp add: st5_def lookup_put_mailbox)
  have msgs: "mbx_messages mbx2 = fold (\<lambda>r. map (store_flags r))
                        (map (\<lambda>m. m\<lparr>recent := False\<rparr>) rs) (mbx_messages mbx)"
    by (simp add: mbx2_def)
  have cleared: "\<forall>m\<in>set (mbx_messages mbx2). \<not> recent m"
    unfolding msgs rs_def by (blast dest: stored_all_cleared)
  have uids: "map uid (mbx_messages mbx2) = map uid (mbx_messages mbx)"
    and conts: "map contents (mbx_messages mbx2) = map contents (mbx_messages mbx)"
    unfolding msgs using stored_uids by blast+
  have frame: "distinct (map uid (mbx_messages mbx)) \<longrightarrow>
              mbx_messages mbx2 = map (\<lambda>m. m\<lparr>recent := False\<rparr>) (mbx_messages mbx)"
    unfolding msgs rs_def by (simp add: stored_cleared_all)
  have rec: "sf_recent (sel_session_flags (views (snd (load_updates (Some v) (Some mbx2) st5)) v)) =
             uid ` {m \<in> set (mbx_messages mbx). recent m}"
    by (simp add: st5_def st2_def rs_def)
  have two: "\<not> (\<exists>m\<in>set (mbx_messages mbx2). \<exists>w.
                 recent m \<and> uid m \<in> sf_recent (sel_session_flags (views (snd (load_updates (Some v) (Some mbx2) st5)) w)))"
    using cleared by blast
  show ?thesis
    unfolding eq fst_conv snd_conv
    using box cleared uids conts frame rec two
    by (intro exI [of _ "snapshot mbx2"] exI [of _ mbx2]) (simp add: v_def)
qed

theorem select_claims_recency_witness:
  "lookup (boxes ex_state) ''INBOX'' = Some ex_inbox \<and> \<not> mbx_readonly ex_inbox \<and>
   (\<exists>snap mbx'.
      fst (select_mailbox ''INBOX'' False ex_state) = Inr (snap, Some 5) \<and>
      lookup (boxes (snd (select_mailbox ''INBOX'' False ex_state))) ''INBOX'' = Some mbx' \<and>
      mbx_messages mbx' = [ex_msg1\<lparr>recent := False\<rparr>, ex_msg2]) \<and>
   sf_recent (sel_session_flags (views (snd (select_mailbox ''INBOX'' False ex_state)) 5)) = {1}"
proof -
  have d: "distinct (map uid (mbx_messages ex_inbox))"
    by (simp add: ex_fields)
  have c: "ex_msg2\<lparr>recent := False\<rparr> = ex_msg2"
    by (simp add: ex_msg2_def)
  have "{m \<in> set (mbx_messages ex_inbox). recent m} = {ex_msg1}"
    by (auto simp: ex_fields)
  then have r: "uid ` {m \<in> set (mbx_messages ex_inbox). recent m} = {1}"
    by (simp add: ex_fields)
  show ?thesis
    using select_claims_recency [of ex_state "''INBOX''" ex_inbox] d r
    by (auto simp: ex_fields c)
qed

subsection \<open>C3\<close>

text \<open>
  Claim C3. Let the destination of an Append or a Copy be resolved (found, or made on
  demand) and writable. The view that recency goes to is the caller's own view when it
  bears the destination's name, and otherwise the view the destination's registry gives,
  which is one of the registered views and is absent only when none is registered. Each
  added message gets the next UID of the destination; when there is such a view, the new
  UIDs are added to that view's recent session flags (no other view's recent flags change)
  and the messages are stored with recent false; when there is none, they are stored with
  recent true.
\<close>

theorem recency_attribution:
  assumes get: "get_mailbox name True st = (Inr mbx, st1)" and rw: "\<not> mbx_readonly mbx"
  shows
    "(\<forall>u. selected = Some u \<and> sel_name (views st u) = name \<longrightarrow>
         find_selected selected mbx st = Some u) \<and>
     ((\<forall>u. selected = Some u \<longrightarrow> sel_name (views st u) \<noteq> name) \<longrightarrow>
         find_selected selected mbx st = any_selected (selected_set mbx)) \<and>
     (any_selected (selected_set mbx) = None \<longleftrightarrow> selected_set mbx = []) \<and>
     (\<forall>w. any_selected (selected_set mbx) = Some w \<longrightarrow> w \<in> set (selected_set mbx)) \<and>
     (\<exists>mbx' new.
         fst (append_messages name msgs selected st) =
           Inr ((mbx_uid_validity mbx, map uid new), selected) \<and>
         lookup (boxes (snd (append_messages name msgs selected st))) name = Some mbx' \<and>
         mbx_messages mbx' = mbx_messages mbx @ new \<and>
         map uid new = [mbx_next_uid mbx ..< mbx_next_uid mbx + length msgs] \<and>
         map contents new = map am_message msgs \<and>
         (\<forall>m\<in>set new. recent m = (find_selected selected mbx st = None)) \<and>
         (\<forall>w. sf_recent (sel_session_flags (views (snd (append_messages name msgs selected st)) w)) =
                sf_recent (sel_session_flags (views st w)) \<union>
                  (if find_selected selected mbx st = Some w then set (map uid new) else {}))) \<and>
     (\<forall>src. lookup (boxes st) (sel_name (views st v)) = Some src \<longrightarrow>
        (\<exists>dest' new.
           fst (copy_messages v ss name st) =
             Inr ((mbx_uid_validity mbx,
                   zip (map (\<lambda>p. uid (snd p)) (find_messages src ss (views st v))) (map uid new)),
                  Some v) \<and>
           lookup (boxes (snd (copy_messages v ss name st))) name = Some dest' \<and>
           mbx_messages dest' = mbx_messages mbx @ new \<and>
           map uid new =
             [mbx_next_uid mbx ..< mbx_next_uid mbx + length (find_messages src ss (views st v))] \<and>
           map contents new = map (\<lambda>p. contents (snd p)) (find_messages src ss (views st v)) \<and>
           map permanent_flags new =
             map (\<lambda>p. permanent_flags (snd p)) (find_messages src ss (views st v)) \<and>
           (\<forall>m\<in>set new. recent m = (find_selected (Some v) mbx st = None)) \<and>
           (\<forall>w. sf_recent (sel_session_flags (views (snd (copy_messages v ss name st)) w)) =
                  sf_recent (sel_session_flags (views st w)) \<union>
                    (if find_selected (Some v) mbx st = Some w then set (map uid new) else {}))))"
proof -
  from get_mailbox_try_create [OF get] have nm: "mbx_name mbx = name" by auto
  define N where "N = stored_as (mbx_next_uid mbx) (find_selected selected mbx st = None)
                  (map (parse_message mbx) msgs)"
  have rule: "(\<forall>u. selected = Some u \<and> sel_name (views st u) = name \<longrightarrow>
         find_selected selected mbx st = Some u) \<and>
     ((\<forall>u. selected = Some u \<longrightarrow> sel_name (views st u) \<noteq> name) \<longrightarrow>
         find_selected selected mbx st = any_selected (selected_set mbx)) \<and>
     (any_selected (selected_set mbx) = None \<longleftrightarrow> selected_set mbx = []) \<and>
     (\<forall>w. any_selected (selected_set mbx) = Some w \<longrightarrow> w \<in> set (selected_set mbx))"
    unfolding nm [symmetric] by (rule find_selected_rule)
  have app: "\<exists>mbx' new.
         fst (append_messages name msgs selected st) =
           Inr ((mbx_uid_validity mbx, map uid new), selected) \<and>
         lookup (boxes (snd (append_messages name msgs selected st))) name = Some mbx' \<and>
         mbx_messages mbx' = mbx_messages mbx @ new \<and>
         map uid new = [mbx_next_uid mbx ..< mbx_next_uid mbx + length msgs] \<and>
         map contents new = map am_message msgs \<and>
         (\<forall>m\<in>set new. recent m = (find_selected selected mbx st = None)) \<and>
         (\<forall>w. sf_recent (sel_session_flags (views (snd (append_messages name msgs selected st)) w)) =
                sf_recent (sel_session_flags (views st w)) \<union>
                  (if find_selected selected mbx st = Some w then set (map uid new) else {}))"
    using append_messages_result [OF get rw N_def]
    by (intro exI [of _ "signal_updated (mbx\<lparr>mbx_messages := mbx_messages mbx @ N,
                                      mbx_next_uid := mbx_next_uid mbx + length msgs\<rparr>)"]
          exI [of _ N])
       (simp add: N_def stored_as_uids stored_as_recent parse_message_def)
  have cp: "\<forall>src. lookup (boxes st) (sel_name (views st v)) = Some src \<longrightarrow>
        (\<exists>dest' new.
           fst (copy_messages v ss name st) =
             Inr ((mbx_uid_validity mbx,
                   zip (map (\<lambda>p. uid (snd p)) (find_messages src ss (views st v))) (map uid new)),
                  Some v) \<and>
           lookup (boxes (snd (copy_messages v ss name st))) name = Some dest' \<and>
           mbx_messages dest' = mbx_messages mbx @ new \<and>
           map uid new =
             [mbx_next_uid mbx ..< mbx_next_uid mbx + length (find_messages src ss (views st v))] \<and>
           map contents new = map (\<lambda>p. contents (snd p)) (find_messages src ss (views st v)) \<and>
           map permanent_flags new =
             map (\<lambda>p. permanent_flags (snd p)) (find_messages src ss (views st v)) \<and>
           (\<forall>m\<in>set new. recent m = (find_selected (Some v) mbx st = None)) \<and>
           (\<forall>w. sf_recent (sel_session_flags (views (snd (copy_messages v ss name st)) w)) =
                  sf_recent (sel_session_flags (views st w)) \<union>
                    (if find_selected (Some v) mbx st = Some w then set (map uid new) else {})))"
  proof (intro allI impI)
    fix src assume src: "lookup (boxes st) (sel_name (views st v)) = Some src"
    define found where "found = find_messages src ss (views st v)"
    define M where "M = stored_as (mbx_next_uid mbx) (find_selected (Some v) mbx st = None) (map snd found)"
    show "\<exists>dest' new.
           fst (copy_messages v ss name st) =
             Inr ((mbx_uid_validity mbx,
                   zip (map (\<lambda>p. uid (snd p)) (find_messages src ss (views st v))) (map uid new)),
                  Some v) \<and>
           lookup (boxes (snd (copy_messages v ss name st))) name = Some dest' \<and>
           mbx_messages dest' = mbx_messages mbx @ new \<and>
           map uid new =
             [mbx_next_uid mbx ..< mbx_next_uid mbx + length (find_messages src ss (views st v))] \<and>
           map contents new = map (\<lambda>p. contents (snd p)) (find_messages src ss (views st v)) \<and>
           map permanent_flags new =
             map (\<lambda>p. permanent_flags (snd p)) (find_messages src ss (views st v)) \<and>
           (\<forall>m\<in>set new. recent m = (find_selected (Some v) mbx st = None)) \<and>
           (\<forall>w. sf_recent (sel_session_flags (views (snd (copy_messages v ss name st)) w)) =
                  sf_recent (sel_session_flags (views st w)) \<union>
                    (if find_selected (Some v) mbx st = Some w then set (map uid new) else {}))"
      unfolding found_def [symmetric]
      using copy_messages_result [OF src get rw found_def M_def]
      by (intro exI [of _ "signal_updated (mbx\<lparr>mbx_messages := mbx_messages mbx @ M,
                                      mbx_next_uid := mbx_next_uid mbx + length found\<rparr>)"]
            exI [of _ M])
         (simp add: M_def stored_as_uids stored_as_recent)
  qed
  from rule app cp show ?thesis by (intro conjI) blast+
qed

theorem recency_attribution_witness:
  "get_mailbox ''INBOX'' True ex_state = (Inr ex_inbox, ex_state) \<and> \<not> mbx_readonly ex_inbox \<and>
   find_selected None ex_inbox ex_state = Some 0 \<and>
   (\<exists>mbx' new.
      fst (append_messages ''INBOX'' [ex_append] None ex_state) = Inr ((7, [3]), None) \<and>
      lookup (boxes (snd (append_messages ''INBOX'' [ex_append] None ex_state))) ''INBOX'' = Some mbx' \<and>
      mbx_messages mbx' = [ex_msg1, ex_msg2] @ new \<and>
      map uid new = [3] \<and> map contents new = [''third''] \<and> map recent new = [False]) \<and>
   sf_recent (sel_session_flags (views (snd (append_messages ''INBOX'' [ex_append] None ex_state)) 0)) = {3} \<and>
   lookup (boxes ex_state) (sel_name (views ex_state 0)) = Some ex_inbox \<and>
   find_selected (Some 0) ex_inbox ex_state = Some 0 \<and>
   (\<exists>dest' new.
      fst (copy_messages 0 (ss_all False) ''INBOX'' ex_state) = Inr ((7, [(1, 3), (2, 4)]), Some 0) \<and>
      lookup (boxes (snd (copy_messages 0 (ss_all False) ''INBOX'' ex_state))) ''INBOX'' = Some dest' \<and>
      mbx_messages dest' = [ex_msg1, ex_msg2] @ new \<and>
      map uid new = [3, 4] \<and> map contents new = [''first'', ''second''] \<and>
      map recent new = [False, False]) \<and>
   sf_recent (sel_session_flags (views (snd (copy_messages 0 (ss_all False) ''INBOX'' ex_state)) 0)) = {3, 4}"
proof -
  have rw: "\<not> mbx_readonly ex_inbox" by (simp add: ex_fields)
  have up: "[mbx_next_uid ex_inbox ..< mbx_next_uid ex_inbox + length [ex_append]] = [3]"
    "[mbx_next_uid ex_inbox ..< mbx_next_uid ex_inbox + length [(1::nat, ex_msg1), (2, ex_msg2)]] = [3, 4]"
    by (simp_all add: ex_fields upt_rec)
  have old: "sf_recent (sel_session_flags (views ex_state 0)) = {}"
    by (simp add: ex_selected_fields)
  have src: "lookup (boxes ex_state) (sel_name (views ex_state 0)) = Some ex_inbox"
    by (simp add: ex_selected_fields)
  note R = recency_attribution [OF ex_get_inbox rw, of None "[ex_append]" 0 "ss_all False"]
  from R obtain mbx' new where
    r: "fst (append_messages ''INBOX'' [ex_append] None ex_state) =
          Inr ((mbx_uid_validity ex_inbox, map uid new), None)"
    and b: "lookup (boxes (snd (append_messages ''INBOX'' [ex_append] None ex_state))) ''INBOX'' = Some mbx'"
    and m: "mbx_messages mbx' = mbx_messages ex_inbox @ new"
    and u: "map uid new = [mbx_next_uid ex_inbox ..< mbx_next_uid ex_inbox + length [ex_append]]"
    and c: "map contents new = map am_message [ex_append]"
    and n: "\<forall>m\<in>set new. recent m = (find_selected None ex_inbox ex_state = None)"
    and f: "\<forall>w. sf_recent (sel_session_flags (views (snd (append_messages ''INBOX'' [ex_append] None ex_state)) w)) =
                sf_recent (sel_session_flags (views ex_state w)) \<union>
                  (if find_selected None ex_inbox ex_state = Some w then set (map uid new) else {})"
    by blast
  from u have u3: "map uid new = [3]" by (simp only: up)
  then obtain x where x: "new = [x]" by auto
  with n have n1: "map recent new = [False]" by (simp add: ex_find_selected)
  from f u3 old
  have f1: "sf_recent (sel_session_flags (views (snd (append_messages ''INBOX'' [ex_append] None ex_state)) 0)) = {3}"
    by (simp add: ex_find_selected)
  from r u3 have r1: "fst (append_messages ''INBOX'' [ex_append] None ex_state) = Inr ((7, [3]), None)"
    by (simp add: ex_fields)
  from m have m1: "mbx_messages mbx' = [ex_msg1, ex_msg2] @ new" by (simp add: ex_fields)
  from c have c1: "map contents new = [''third'']" by (simp add: ex_append_def)
  have app: "\<exists>mbx' new.
      fst (append_messages ''INBOX'' [ex_append] None ex_state) = Inr ((7, [3]), None) \<and>
      lookup (boxes (snd (append_messages ''INBOX'' [ex_append] None ex_state))) ''INBOX'' = Some mbx' \<and>
      mbx_messages mbx' = [ex_msg1, ex_msg2] @ new \<and>
      map uid new = [3] \<and> map contents new = [''third''] \<and> map recent new = [False]"
    by (rule exI [of _ mbx'], rule exI [of _ new]) (intro conjI r1 b m1 u3 c1 n1)
  from R src obtain dest' cnew where
    cr: "fst (copy_messages 0 (ss_all False) ''INBOX'' ex_state) =
          Inr ((mbx_uid_validity ex_inbox,
                zip (map (\<lambda>p. uid (snd p)) (find_messages ex_inbox (ss_all False) (views ex_state 0)))
                  (map uid cnew)), Some 0)"
    and cb: "lookup (boxes (snd (copy_messages 0 (ss_all False) ''INBOX'' ex_state))) ''INBOX'' = Some dest'"
    and cm: "mbx_messages dest' = mbx_messages ex_inbox @ cnew"
    and cu: "map uid cnew = [mbx_next_uid ex_inbox ..<
               mbx_next_uid ex_inbox + length (find_messages ex_inbox (ss_all False) (views ex_state 0))]"
    and cc: "map contents cnew = map (\<lambda>p. contents (snd p)) (find_messages ex_inbox (ss_all False) (views ex_state 0))"
    and cn: "\<forall>m\<in>set cnew. recent m = (find_selected (Some 0) ex_inbox ex_state = None)"
    and cf: "\<forall>w. sf_recent (sel_session_flags (views (snd (copy_messages 0 (ss_all False) ''INBOX'' ex_state)) w)) =
                sf_recent (sel_session_flags (views ex_state w)) \<union>
                  (if find_selected (Some 0) ex_inbox ex_state = Some w then set (map uid cnew) else {})"
    by blast
  have fm: "find_messages ex_inbox (ss_all False) (views ex_state 0) = [(1, ex_msg1), (2, ex_msg2)]"
    by (simp add: ex_found)
  from cu have cu3: "map uid cnew = [3, 4]" by (simp only: fm up)
  then obtain y z where yz: "cnew = [y, z]" by auto
  with cn have cn1: "map recent cnew = [False, False]" by (simp add: ex_find_selected_own)
  from cf cu3 old
  have cf1: "sf_recent (sel_session_flags (views (snd (copy_messages 0 (ss_all False) ''INBOX'' ex_state)) 0)) = {3, 4}"
    by (simp add: ex_find_selected_own)
  from cr cu3 have cr1: "fst (copy_messages 0 (ss_all False) ''INBOX'' ex_state) = Inr ((7, [(1, 3), (2, 4)]), Some 0)"
    by (simp add: ex_found ex_fields)
  from cm have cm1: "mbx_messages dest' = [ex_msg1, ex_msg2] @ cnew" by (simp add: ex_fields)
  from cc have cc1: "map contents cnew = [''first'', ''second'']"
    by (simp add: ex_found ex_msg1_def ex_msg2_def)
  have cp: "\<exists>dest' new.
      fst (copy_messages 0 (ss_all False) ''INBOX'' ex_state) = Inr ((7, [(1, 3), (2, 4)]), Some 0) \<and>
      lookup (boxes (snd (copy_messages 0 (ss_all False) ''INBOX'' ex_state))) ''INBOX'' = Some dest' \<and>
      mbx_messages dest' = [ex_msg1, ex_msg2] @ new \<and>
      map uid new = [3, 4] \<and> map contents new = [''first'', ''second''] \<and>
      map recent new = [False, False]"
    by (rule exI [of _ dest'], rule exI [of _ cnew]) (intro conjI cr1 cb cm1 cu3 cc1 cn1)
  show ?thesis
    by (intro conjI ex_get_inbox rw ex_find_selected app f1 src ex_find_selected_own cp cf1)
qed

subsection \<open>C4\<close>

text \<open>
  Claim C4. Expunge and Update-Flags through a view that is read-only raise
  \<open>MailboxReadOnly\<close> with the view's name and leave the whole state as it was: no
  message is deleted, no flag changes, the view is unchanged, no change signal is set.
\<close>

theorem readonly_view_rejects:
  assumes "sel_readonly (views st v)"
  shows "expunge_mailbox v uid_set st = (Inl (MailboxReadOnly (sel_name (views st v))), st) \<and>
         update_flags v ss fs mode st = (Inl (MailboxReadOnly (sel_name (views st v))), st)"
  using assms by (simp add: expunge_mailbox_def update_flags_def)

theorem readonly_view_rejects_witness:
  "sel_readonly (views ex_state 2) \<and>
   expunge_mailbox 2 None ex_state = (Inl (MailboxReadOnly ''INBOX''), ex_state) \<and>
   update_flags 2 (ss_all False) {Deleted} ADD ex_state = (Inl (MailboxReadOnly ''INBOX''), ex_state)"
  using readonly_view_rejects [of ex_state 2 None "ss_all False" "{Deleted}" ADD] by simp

subsection \<open>C5\<close>

text \<open>
  Claim C5, as stated, fails: a view marked deleted whose name resolves again is
  reconciled like any other view. Here view 3 is deleted and bears the name of an
  existing mailbox; the synchronization replaces its UID validity and fills its membership.
\<close>

theorem deleted_view_synchronized_again:
  "sel_deleted (views ex_state 3) \<and>
   sel_uid_validity (views ex_state 3) = Some 3 \<and>
   sel_uid_validity (views (snd (load_updates (Some 3) None ex_state)) 3) = Some 7 \<and>
   sel_messages (views ex_state 3) = [] \<and>
   sel_messages (views (snd (load_updates (Some 3) None ex_state)) 3) = [(1, {}), (2, {Deleted})]"
  by (simp add: load_updates_resolve_found [of None _ _ ex_inbox] ex_view_def sync_view_def
        items_def ex_inbox_def ex_msg1_def ex_msg2_def add_messages_def set_uid_validity_def)

text \<open>
  Claim C5, amended. Synchronization never clears the deleted marker. A synchronization
  of a deleted view changes nothing at all as long as the view's name does not resolve
  (and no handle of that name is supplied). When the view is synchronized against a
  mailbox, be it a supplied handle of the view's name or the mailbox its name resolves to
  again, the view takes that mailbox's UID validity, every message of the mailbox is
  entered into the view's membership under its UID (with its own permanent flags where
  the UIDs are distinct), and the view stays deleted; its session flags, the other views
  and the mailboxes are as before.
\<close>

theorem deleted_marker_kept:
  assumes "sel_deleted (views st v)"
  shows
    "sel_deleted (views (snd (load_updates (Some v) mbx st)) v) \<and>
     ((mbx = None \<or> (\<exists>m. mbx = Some m \<and> mbx_name m \<noteq> sel_name (views st v))) \<and>
      lookup (boxes st) (sel_name (views st v)) = None \<longrightarrow>
        load_updates (Some v) mbx st = (Inr (Some v), st)) \<and>
     (\<forall>m. (mbx = Some m \<and> mbx_name m = sel_name (views st v)) \<or>
          ((mbx = None \<or> (\<exists>m'. mbx = Some m' \<and> mbx_name m' \<noteq> sel_name (views st v))) \<and>
           lookup (boxes st) (sel_name (views st v)) = Some m) \<longrightarrow>
        fst (load_updates (Some v) mbx st) = Inr (Some v) \<and>
        sel_uid_validity (views (snd (load_updates (Some v) mbx st)) v) = Some (mbx_uid_validity m) \<and>
        (\<forall>msg\<in>set (mbx_messages m). \<exists>msg'\<in>set (mbx_messages m).
            uid msg' = uid msg \<and>
            map_of (sel_messages (views (snd (load_updates (Some v) mbx st)) v)) (uid msg) =
              Some (permanent_flags msg')) \<and>
        (distinct (map uid (mbx_messages m)) \<longrightarrow>
           (\<forall>msg\<in>set (mbx_messages m).
              map_of (sel_messages (views (snd (load_updates (Some v) mbx st)) v)) (uid msg) =
                Some (permanent_flags msg))) \<and>
        sel_session_flags (views (snd (load_updates (Some v) mbx st)) v) = sel_session_flags (views st v) \<and>
        boxes (snd (load_updates (Some v) mbx st)) = boxes st \<and>
        (\<forall>w. w \<noteq> v \<longrightarrow> views (snd (load_updates (Some v) mbx st)) w = views st w))"
proof -
  have "(views st v)\<lparr>sel_deleted := True\<rparr> = views st v"
    using assms by (cases "views st v") simp
  then have keep: "upd_view v set_deleted st = st"
    by (simp add: upd_view_def set_deleted_def)
  have one: "sel_deleted (views (snd (load_updates (Some v) mbx st)) v)"
    using assms by (rule load_updates_keeps_deleted)
  have two: "(mbx = None \<or> (\<exists>m. mbx = Some m \<and> mbx_name m \<noteq> sel_name (views st v))) \<and>
          lookup (boxes st) (sel_name (views st v)) = None \<longrightarrow>
            load_updates (Some v) mbx st = (Inr (Some v), st)"
    using keep by (simp add: load_updates_resolve_missing)
  have three: "\<forall>m. (mbx = Some m \<and> mbx_name m = sel_name (views st v)) \<or>
          ((mbx = None \<or> (\<exists>m'. mbx = Some m' \<and> mbx_name m' \<noteq> sel_name (views st v))) \<and>
           lookup (boxes st) (sel_name (views st v)) = Some m) \<longrightarrow>
        fst (load_updates (Some v) mbx st) = Inr (Some v) \<and>
        sel_uid_validity (views (snd (load_updates (Some v) mbx st)) v) = Some (mbx_uid_validity m) \<and>
        (\<forall>msg\<in>set (mbx_messages m). \<exists>msg'\<in>set (mbx_messages m).
            uid msg' = uid msg \<and>
            map_of (sel_messages (views (snd (load_updates (Some v) mbx st)) v)) (uid msg) =
              Some (permanent_flags msg')) \<and>
        (distinct (map uid (mbx_messages m)) \<longrightarrow>
           (\<forall>msg\<in>set (mbx_messages m).
              map_of (sel_messages (views (snd (load_updates (Some v) mbx st)) v)) (uid msg) =
                Some (permanent_flags msg))) \<and>
        sel_session_flags (views (snd (load_updates (Some v) mbx st)) v) = sel_session_flags (views st v) \<and>
        boxes (snd (load_updates (Some v) mbx st)) = boxes st \<and>
        (\<forall>w. w \<noteq> v \<longrightarrow> views (snd (load_updates (Some v) mbx st)) w = views st w)"
  proof (intro allI impI)
    fix m
    assume r: "(mbx = Some m \<and> mbx_name m = sel_name (views st v)) \<or>
          ((mbx = None \<or> (\<exists>m'. mbx = Some m' \<and> mbx_name m' \<noteq> sel_name (views st v))) \<and>
           lookup (boxes st) (sel_name (views st v)) = Some m)"
    have eq: "load_updates (Some v) mbx st = (Inr (Some v), upd_view v (sync_view m) st)"
      using r by (rule load_updates_reconciles)
    have mem: "\<forall>msg\<in>set (mbx_messages m). \<exists>msg'\<in>set (mbx_messages m).
            uid msg' = uid msg \<and>
            map_of (sel_messages (sync_view m (views st v))) (uid msg) = Some (permanent_flags msg')"
      by (blast dest: sync_view_member)
    have dis: "distinct (map uid (mbx_messages m)) \<longrightarrow>
           (\<forall>msg\<in>set (mbx_messages m).
              map_of (sel_messages (sync_view m (views st v))) (uid msg) = Some (permanent_flags msg))"
      by (simp add: sync_view_member_distinct)
    show "fst (load_updates (Some v) mbx st) = Inr (Some v) \<and>
        sel_uid_validity (views (snd (load_updates (Some v) mbx st)) v) = Some (mbx_uid_validity m) \<and>
        (\<forall>msg\<in>set (mbx_messages m). \<exists>msg'\<in>set (mbx_messages m).
            uid msg' = uid msg \<and>
            map_of (sel_messages (views (snd (load_updates (Some v) mbx st)) v)) (uid msg) =
              Some (permanent_flags msg')) \<and>
        (distinct (map uid (mbx_messages m)) \<longrightarrow>
           (\<forall>msg\<in>set (mbx_messages m).
              map_of (sel_messages (views (snd (load_updates (Some v) mbx st)) v)) (uid msg) =
                Some (permanent_flags msg))) \<and>
        sel_session_flags (views (snd (load_updates (Some v) mbx st)) v) = sel_session_flags (views st v) \<and>
        boxes (snd (load_updates (Some v) mbx st)) = boxes st \<and>
        (\<forall>w. w \<noteq> v \<longrightarrow> views (snd (load_updates (Some v) mbx st)) w = views st w)"
      unfolding eq using mem dis by simp
  qed
  from one two three show ?thesis by (intro conjI)
qed

theorem deleted_marker_kept_witness:
  "sel_deleted (views ex_state 3) \<and>
   sel_deleted (views (snd (load_updates (Some 3) None ex_state)) 3) \<and>
   sel_uid_validity (views (snd (load_updates (Some 3) None ex_state)) 3) = Some 7 \<and>
   map_of (sel_messages (views (snd (load_updates (Some 3) None ex_state)) 3)) 1 = Some {} \<and>
   map_of (sel_messages (views (snd (load_updates (Some 3) None ex_state)) 3)) 2 = Some {Deleted} \<and>
   sel_deleted (views (snd (load_updates (Some 3) (Some ex_inbox) ex_state)) 3) \<and>
   sel_uid_validity (views (snd (load_updates (Some 3) (Some ex_inbox) ex_state)) 3) = Some 7 \<and>
   map_of (sel_messages (views (snd (load_updates (Some 3) (Some ex_inbox) ex_state)) 3)) 2 = Some {Deleted} \<and>
   sel_deleted (views (ex_state\<lparr>boxes := []\<rparr>) 3) \<and>
   load_updates (Some 3) None (ex_state\<lparr>boxes := []\<rparr>) = (Inr (Some 3), ex_state\<lparr>boxes := []\<rparr>)"
proof -
  have del: "sel_deleted (views ex_state 3)" "sel_deleted (views (ex_state\<lparr>boxes := []\<rparr>) 3)"
    by simp_all
  have nm: "sel_name (views ex_state 3) = ''INBOX''" "mbx_name ex_inbox = ''INBOX''"
    by (simp_all add: ex_inbox_def)
  have d: "distinct (map uid (mbx_messages ex_inbox))"
    and m1: "ex_msg1 \<in> set (mbx_messages ex_inbox)" and m2: "ex_msg2 \<in> set (mbx_messages ex_inbox)"
    and f: "uid ex_msg1 = 1" "uid ex_msg2 = 2" "permanent_flags ex_msg1 = {}"
      "permanent_flags ex_msg2 = {Deleted}" "mbx_uid_validity ex_inbox = 7"
    by (simp_all add: ex_inbox_def ex_msg1_def ex_msg2_def)
  note A = deleted_marker_kept [OF del(1), of None]
  note B = deleted_marker_kept [OF del(1), of "Some ex_inbox"]
  note C = deleted_marker_kept [OF del(2), of None]
  have ra: "(None = Some ex_inbox \<and> mbx_name ex_inbox = sel_name (views ex_state 3)) \<or>
          ((None = None \<or> (\<exists>m'. None = Some m' \<and> mbx_name m' \<noteq> sel_name (views ex_state 3))) \<and>
           lookup (boxes ex_state) (sel_name (views ex_state 3)) = Some ex_inbox)"
    by simp
  have rb: "(Some ex_inbox = Some ex_inbox \<and> mbx_name ex_inbox = sel_name (views ex_state 3)) \<or>
          ((Some ex_inbox = None \<or> (\<exists>m'. Some ex_inbox = Some m' \<and> mbx_name m' \<noteq> sel_name (views ex_state 3))) \<and>
           lookup (boxes ex_state) (sel_name (views ex_state 3)) = Some ex_inbox)"
    by (simp add: nm)
  note A3 = A [THEN conjunct2, THEN conjunct2, rule_format, OF ra]
  note B3 = B [THEN conjunct2, THEN conjunct2, rule_format, OF rb]
  have a1: "sel_deleted (views (snd (load_updates (Some 3) None ex_state)) 3)"
    using A by blast
  have a2: "sel_uid_validity (views (snd (load_updates (Some 3) None ex_state)) 3) = Some 7"
    using A3 by (simp add: f)
  have ad: "\<forall>msg\<in>set (mbx_messages ex_inbox).
              map_of (sel_messages (views (snd (load_updates (Some 3) None ex_state)) 3)) (uid msg) =
                Some (permanent_flags msg)"
    using A3 d by blast
  have a3: "map_of (sel_messages (views (snd (load_updates (Some 3) None ex_state)) 3)) 1 = Some {}"
    using ad [rule_format, OF m1] by (simp only: f)
  have a4: "map_of (sel_messages (views (snd (load_updates (Some 3) None ex_state)) 3)) 2 = Some {Deleted}"
    using ad [rule_format, OF m2] by (simp only: f)
  have b1: "sel_deleted (views (snd (load_updates (Some 3) (Some ex_inbox) ex_state)) 3)"
    using B by blast
  have b2: "sel_uid_validity (views (snd (load_updates (Some 3) (Some ex_inbox) ex_state)) 3) = Some 7"
    using B3 by (simp add: f)
  have bd: "\<forall>msg\<in>set (mbx_messages ex_inbox).
              map_of (sel_messages (views (snd (load_updates (Some 3) (Some ex_inbox) ex_state)) 3)) (uid msg) =
                Some (permanent_flags msg)"
    using B3 d by blast
  have b4: "map_of (sel_messages (views (snd (load_updates (Some 3) (Some ex_inbox) ex_state)) 3)) 2 = Some {Deleted}"
    using bd [rule_format, OF m2] by (simp only: f)
  have c1: "load_updates (Some 3) None (ex_state\<lparr>boxes := []\<rparr>) = (Inr (Some 3), ex_state\<lparr>boxes := []\<rparr>)"
    using C by (simp add: lookup_Nil)
  show ?thesis
    by (intro conjI del(1) a1 a2 a3 a4 b1 b2 b4 del(2) c1)
qed

subsection \<open>C6\<close>

text \<open>
  Claim C6, as stated, fails: Check and Fetch first resolve the mailbox by the view's name,
  outside the synchronization, and that resolution raises. Here view 4 names a mailbox
  that does not exist; both calls end in \<open>MailboxNotFound\<close> and the view is not
  marked deleted.
\<close>

theorem check_and_fetch_propagate:
  "fst (check_mailbox 4 None False ex_state) = Inl (MailboxNotFound ''Gone'') \<and>
   \<not> sel_deleted (views (snd (check_mailbox 4 None False ex_state)) 4) \<and>
   fst (fetch_messages 4 (ss_all False) [] ex_state) = Inl (MailboxNotFound ''Gone'') \<and>
   \<not> sel_deleted (views (snd (fetch_messages 4 (ss_all False) [] ex_state)) 4)"
  by (simp add: check_mailbox_def fetch_messages_def get_mailbox_missing)

text \<open>
  Claim C6, amended. When the view's mailbox does not exist, Check and Fetch raise
  \<open>MailboxNotFound\<close> with the view's name and leave the state, the view included, as
  it was. The not-found condition becomes the deleted marker only where the
  synchronization itself resolves the name, as a call of it without a handle does.
\<close>

theorem check_and_fetch_raise_not_found:
  assumes "lookup (boxes st) (sel_name (views st v)) = None"
  shows "check_mailbox v wait_on housekeeping st = (Inl (MailboxNotFound (sel_name (views st v))), st) \<and>
         fetch_messages v ss attributes st = (Inl (MailboxNotFound (sel_name (views st v))), st) \<and>
         load_updates (Some v) None st = (Inr (Some v), upd_view v set_deleted st)"
  using assms
  by (simp add: check_mailbox_def fetch_messages_def get_mailbox_missing load_updates_resolve_missing)

theorem check_and_fetch_raise_not_found_witness:
  "lookup (boxes ex_state) (sel_name (views ex_state 4)) = None \<and>
   check_mailbox 4 None False ex_state = (Inl (MailboxNotFound ''Gone''), ex_state) \<and>
   fetch_messages 4 (ss_all False) [] ex_state = (Inl (MailboxNotFound ''Gone''), ex_state)"
  using check_and_fetch_raise_not_found [of ex_state 4 None False "ss_all False" "[]"] by simp

subsection \<open>C7\<close>

text \<open>
  Claim C7. A Fetch that marks messages seen, through a writable view, adds \<open>Seen\<close> to
  the matched messages and is to persist them with \<open>save_flags\<close>. Line 179 hands
  \<open>save_flags\<close> one generator object, where lines 155 and 247 unpack a list of messages.
  Handed the matched messages as lines 155 and 247 do, \<open>save_flags\<close> persists
  \<open>Seen\<close> on both messages of the mailbox, whatever the store. Handed the generator, what is
  persisted is left to what the store does with such an argument: with a store that finds
  no message in it the Fetch returns the messages with \<open>Seen\<close> and the mailbox still
  holds them without it; with a store that fails on it the Fetch raises; only with a store
  of live message objects is \<open>Seen\<close> stored.
\<close>

theorem fetch_mark_seen_left_to_store:
  "(\<forall>g. save_flags g
          (map Message (map snd (map add_seen (find_messages ex_inbox (ss_all False) ex_selected))))
          ex_inbox =
        Inr (ex_inbox\<lparr>mbx_messages :=
               [ex_msg1\<lparr>permanent_flags := {Seen}\<rparr>, ex_msg2\<lparr>permanent_flags := {Seen, Deleted}\<rparr>]\<rparr>)) \<and>
   fst (fetch_messages 0 (ss_all False) [ex_body] (ex_state\<lparr>save_generator := store_ignores\<rparr>)) =
     Inr ([(1, ex_msg1\<lparr>permanent_flags := {Seen}\<rparr>), (2, ex_msg2\<lparr>permanent_flags := {Seen, Deleted}\<rparr>)],
          Some 0) \<and>
   lookup (boxes (snd (fetch_messages 0 (ss_all False) [ex_body]
                         (ex_state\<lparr>save_generator := store_ignores\<rparr>)))) ''INBOX'' =
     Some ex_inbox \<and>
   permanent_flags ex_msg1 = {} \<and> permanent_flags ex_msg2 = {Deleted} \<and>
   mbx_messages ex_inbox = [ex_msg1, ex_msg2] \<and>
   fetch_messages 0 (ss_all False) [ex_body] (ex_state\<lparr>save_generator := store_fails\<rparr>) =
     (Inl StorageFailure, ex_state\<lparr>save_generator := store_fails\<rparr>) \<and>
   lookup (boxes (snd (fetch_messages 0 (ss_all False) [ex_body]
                         (ex_state\<lparr>save_generator := store_live\<rparr>)))) ''INBOX'' =
     Some (ex_inbox\<lparr>mbx_messages :=
             [ex_msg1\<lparr>permanent_flags := {Seen}\<rparr>, ex_msg2\<lparr>permanent_flags := {Seen, Deleted}\<rparr>]\<rparr>)"
proof -
  have nm: "mbx_name ex_inbox = ''INBOX''" by (simp add: ex_inbox_def)
  have live: "store_live [ex_msg1\<lparr>permanent_flags := {Seen}\<rparr>, ex_msg2\<lparr>permanent_flags := {Seen, Deleted}\<rparr>] ex_inbox =
      Inr (ex_inbox\<lparr>mbx_messages :=
             [ex_msg1\<lparr>permanent_flags := {Seen}\<rparr>, ex_msg2\<lparr>permanent_flags := {Seen, Deleted}\<rparr>]\<rparr>)"
    by (simp add: store_live_def store_flags_def ex_fields)
  have a: "\<forall>g. save_flags g
          (map Message (map snd (map add_seen (find_messages ex_inbox (ss_all False) ex_selected))))
          ex_inbox =
        Inr (ex_inbox\<lparr>mbx_messages :=
               [ex_msg1\<lparr>permanent_flags := {Seen}\<rparr>, ex_msg2\<lparr>permanent_flags := {Seen, Deleted}\<rparr>]\<rparr>)"
    by (intro allI) (rule save_flags_unpacked_example)
  have b: "fst (fetch_messages 0 (ss_all False) [ex_body] (ex_state\<lparr>save_generator := store_ignores\<rparr>)) =
     Inr ([(1, ex_msg1\<lparr>permanent_flags := {Seen}\<rparr>), (2, ex_msg2\<lparr>permanent_flags := {Seen, Deleted}\<rparr>)],
          Some 0)"
    by (simp add: ex_fetch store_ignores_def)
  have c: "lookup (boxes (snd (fetch_messages 0 (ss_all False) [ex_body]
                         (ex_state\<lparr>save_generator := store_ignores\<rparr>)))) ''INBOX'' = Some ex_inbox"
    by (simp add: ex_fetch store_ignores_def lookup_put_mailbox nm)
  have d: "permanent_flags ex_msg1 = {}" "permanent_flags ex_msg2 = {Deleted}"
    "mbx_messages ex_inbox = [ex_msg1, ex_msg2]"
    by (simp_all add: ex_msg1_def ex_msg2_def ex_inbox_def)
  have e: "fetch_messages 0 (ss_all False) [ex_body] (ex_state\<lparr>save_generator := store_fails\<rparr>) =
     (Inl StorageFailure, ex_state\<lparr>save_generator := store_fails\<rparr>)"
    by (simp add: ex_fetch store_fails_def)
  have f: "lookup (boxes (snd (fetch_messages 0 (ss_all False) [ex_body]
                         (ex_state\<lparr>save_generator := store_live\<rparr>)))) ''INBOX'' =
     Some (ex_inbox\<lparr>mbx_messages :=
             [ex_msg1\<lparr>permanent_flags := {Seen}\<rparr>, ex_msg2\<lparr>permanent_flags := {Seen, Deleted}\<rparr>]\<rparr>)"
    by (simp add: ex_fetch live lookup_put_mailbox nm)
  show ?thesis by (intro conjI a b c d e f)
qed

subsection \<open>C8\<close>

text \<open>
  Claim C8. The change wait always returns normally, whatever the two events do: the
  timeout of the wait is caught. It takes as long as the earlier of the two events needs
  to be set, and never longer than 10 time units.
\<close>

theorem wait_for_updates_returns_normally:
  "fst (wait_for_updates mbx wait_on) = Inr () \<and>
   snd (wait_for_updates mbx wait_on) =
     min 10 (min (case wait_on of None \<Rightarrow> 10 | Some t \<Rightarrow> max 0 t)
                 (case updated mbx of None \<Rightarrow> 10 | Some t \<Rightarrow> max 0 t))"
  by (auto simp: wait_for_updates_def wait_def or_event_def split: option.splits)

theorem wait_for_updates_returns_normally_witness:
  "fst (wait_for_updates ex_inbox None) = Inr () \<and> snd (wait_for_updates ex_inbox None) = 10 \<and>
   fst (wait_for_updates ex_inbox (Some 4)) = Inr () \<and> snd (wait_for_updates ex_inbox (Some 4)) = 4"
  using wait_for_updates_returns_normally [of ex_inbox None]
    wait_for_updates_returns_normally [of ex_inbox "Some 4"]
  by (simp add: ex_inbox_def)

subsection \<open>C9\<close>

text \<open>
  Claim C9. When no mailbox has the destination's name, Append and Copy (from a view
  whose own mailbox exists) do not raise: the store's create-if-missing resolution makes
  the mailbox, the operation returns the new mailbox's UID validity with the UIDs, and
  afterwards the mailbox exists and holds the added messages.
\<close>

theorem destination_created_on_demand:
  assumes "lookup (boxes st) name = None"
  shows
    "(\<exists>uids mbx'.
        fst (append_messages name msgs selected st) = Inr ((next_validity st, uids), selected) \<and>
        length uids = length msgs \<and>
        lookup (boxes (snd (append_messages name msgs selected st))) name = Some mbx' \<and>
        map contents (mbx_messages mbx') = map am_message msgs) \<and>
     (\<forall>src. lookup (boxes st) (sel_name (views st v)) = Some src \<longrightarrow>
        (\<exists>pairs dest'.
           fst (copy_messages v ss name st) = Inr ((next_validity st, pairs), Some v) \<and>
           map fst pairs = map (\<lambda>p. uid (snd p)) (find_messages src ss (views st v)) \<and>
           lookup (boxes (snd (copy_messages v ss name st))) name = Some dest' \<and>
           map contents (mbx_messages dest') =
             map (\<lambda>p. contents (snd p)) (find_messages src ss (views st v))))"
proof -
  note get = get_mailbox_creates [OF assms]
  have rw: "\<not> mbx_readonly (new_mailbox name (next_validity st))" by simp
  have app: "\<exists>uids mbx'.
        fst (append_messages name msgs selected st) = Inr ((next_validity st, uids), selected) \<and>
        length uids = length msgs \<and>
        lookup (boxes (snd (append_messages name msgs selected st))) name = Some mbx' \<and>
        map contents (mbx_messages mbx') = map am_message msgs"
    using append_messages_result [OF get rw refl, where selected = selected and msgs = msgs]
    by (simp add: parse_message_def)
  have cp: "\<forall>src. lookup (boxes st) (sel_name (views st v)) = Some src \<longrightarrow>
        (\<exists>pairs dest'.
           fst (copy_messages v ss name st) = Inr ((next_validity st, pairs), Some v) \<and>
           map fst pairs = map (\<lambda>p. uid (snd p)) (find_messages src ss (views st v)) \<and>
           lookup (boxes (snd (copy_messages v ss name st))) name = Some dest' \<and>
           map contents (mbx_messages dest') =
             map (\<lambda>p. contents (snd p)) (find_messages src ss (views st v)))"
  proof (intro allI impI)
    fix src assume src: "lookup (boxes st) (sel_name (views st v)) = Some src"
    show "\<exists>pairs dest'.
           fst (copy_messages v ss name st) = Inr ((next_validity st, pairs), Some v) \<and>
           map fst pairs = map (\<lambda>p. uid (snd p)) (find_messages src ss (views st v)) \<and>
           lookup (boxes (snd (copy_messages v ss name st))) name = Some dest' \<and>
           map contents (mbx_messages dest') =
             map (\<lambda>p. contents (snd p)) (find_messages src ss (views st v))"
      using copy_messages_result [OF src get rw refl refl, where ss = ss]
      by simp
  qed
  from app cp show ?thesis by (rule conjI)
qed

theorem destination_created_on_demand_witness:
  "lookup (boxes ex_state) ''Drafts'' = None \<and>
   (\<exists>uids mbx'.
      fst (append_messages ''Drafts'' [ex_append] None ex_state) = Inr ((8, uids), None) \<and>
      length uids = 1 \<and>
      lookup (boxes (snd (append_messages ''Drafts'' [ex_append] None ex_state))) ''Drafts'' = Some mbx' \<and>
      map contents (mbx_messages mbx') = [''third'']) \<and>
   lookup (boxes ex_state) (sel_name (views ex_state 0)) = Some ex_inbox \<and>
   (\<exists>pairs dest'.
      fst (copy_messages 0 (ss_all False) ''Drafts'' ex_state) = Inr ((8, pairs), Some 0) \<and>
      map fst pairs = [1, 2] \<and>
      lookup (boxes (snd (copy_messages 0 (ss_all False) ''Drafts'' ex_state))) ''Drafts'' = Some dest' \<and>
      map contents (mbx_messages dest') = [''first'', ''second''])"
proof -
  have nv: "next_validity ex_state = 8" by (simp add: ex_state_def)
  have src: "lookup (boxes ex_state) (sel_name (views ex_state 0)) = Some ex_inbox"
    by (simp add: ex_selected_fields)
  have fm: "find_messages ex_inbox (ss_all False) (views ex_state 0) = [(1, ex_msg1), (2, ex_msg2)]"
    by (simp add: ex_found)
  have am: "map am_message [ex_append] = [''third'']" by (simp add: ex_append_def)
  have us: "map (\<lambda>p. uid (snd p)) [(1::nat, ex_msg1), (2, ex_msg2)] = [1, 2]"
    "map (\<lambda>p. contents (snd p)) [(1::nat, ex_msg1), (2, ex_msg2)] = [''first'', ''second'']"
    by (simp_all add: ex_msg1_def ex_msg2_def)
  note D = destination_created_on_demand [of ex_state "''Drafts''" "[ex_append]" None 0 "ss_all False",
      unfolded nv am]
  have none: "lookup (boxes ex_state) ''Drafts'' = None" by simp
  have app: "\<exists>uids mbx'.
      fst (append_messages ''Drafts'' [ex_append] None ex_state) = Inr ((8, uids), None) \<and>
      length uids = 1 \<and>
      lookup (boxes (snd (append_messages ''Drafts'' [ex_append] None ex_state))) ''Drafts'' = Some mbx' \<and>
      map contents (mbx_messages mbx') = [''third'']"
    using D [OF none, THEN conjunct1] by simp
  have cp: "\<exists>pairs dest'.
      fst (copy_messages 0 (ss_all False) ''Drafts'' ex_state) = Inr ((8, pairs), Some 0) \<and>
      map fst pairs = [1, 2] \<and>
      lookup (boxes (snd (copy_messages 0 (ss_all False) ''Drafts'' ex_state))) ''Drafts'' = Some dest' \<and>
      map contents (mbx_messages dest') = [''first'', ''second'']"
    using D [OF none, THEN conjunct2, rule_format, OF src] unfolding fm us .
  show ?thesis by (intro conjI none app src cp)
qed

subsection \<open>C10\<close>

text \<open>
  Claim C10. The view made by Select is read-only exactly when read-only was asked for or
  the mailbox is read-only. When it is, Expunge and Update-Flags through that view are
  rejected with \<open>MailboxReadOnly\<close>; a writable view results only when both are false.
\<close>

theorem select_readonly_is_disjunction:
  assumes "lookup (boxes st) name = Some mbx"
  shows "(\<exists>snap. fst (select_mailbox name ro st) = Inr (snap, Some (next_view st))) \<and>
         sel_name (views (snd (select_mailbox name ro st)) (next_view st)) = name \<and>
         sel_readonly (views (snd (select_mailbox name ro st)) (next_view st)) = (ro \<or> mbx_readonly mbx) \<and>
         (ro \<or> mbx_readonly mbx \<longrightarrow>
            expunge_mailbox (next_view st) uid_set (snd (select_mailbox name ro st)) =
              (Inl (MailboxReadOnly name), snd (select_mailbox name ro st)) \<and>
            update_flags (next_view st) ss fs mode (snd (select_mailbox name ro st)) =
              (Inl (MailboxReadOnly name), snd (select_mailbox name ro st)))"
proof (cases "ro \<or> mbx_readonly mbx")
  case True
  have "\<exists>snap. fst (select_mailbox name ro st) = Inr (snap, Some (next_view st))"
    by (simp add: select_mailbox_readonly_eq [OF assms True] Let_def)
  moreover have n: "sel_name (views (snd (select_mailbox name ro st)) (next_view st)) = name"
    by (simp add: select_mailbox_readonly_eq [OF assms True] Let_def)
  moreover have r: "sel_readonly (views (snd (select_mailbox name ro st)) (next_view st))"
    by (simp add: select_mailbox_readonly_eq [OF assms True] Let_def)
  ultimately show ?thesis using True
    by (simp add: expunge_mailbox_def update_flags_def)
next
  case False
  then have w: "\<not> ro" "\<not> mbx_readonly mbx" by auto
  have "\<exists>snap. fst (select_mailbox name ro st) = Inr (snap, Some (next_view st))"
    by (simp add: select_mailbox_writable_eq [OF assms w] Let_def)
  moreover have "sel_name (views (snd (select_mailbox name ro st)) (next_view st)) = name"
    by (simp add: select_mailbox_writable_eq [OF assms w] Let_def)
  moreover have "\<not> sel_readonly (views (snd (select_mailbox name ro st)) (next_view st))"
    by (simp add: select_mailbox_writable_eq [OF assms w] Let_def)
  ultimately show ?thesis using False by simp
qed

theorem select_readonly_is_disjunction_witness:
  "lookup (boxes ex_state) ''Archive'' = Some ex_archive \<and> mbx_readonly ex_archive \<and>
   (\<exists>snap. fst (select_mailbox ''Archive'' False ex_state) = Inr (snap, Some 5)) \<and>
   sel_readonly (views (snd (select_mailbox ''Archive'' False ex_state)) 5) \<and>
   expunge_mailbox 5 None (snd (select_mailbox ''Archive'' False ex_state)) =
     (Inl (MailboxReadOnly ''Archive''), snd (select_mailbox ''Archive'' False ex_state))"
  using select_readonly_is_disjunction [of ex_state "''Archive''" ex_archive False None "ss_all False" "{}" ADD]
  by (simp add: ex_fields)

end
